theory Spec2Isabelle
  imports Complex_Main
begin

section \<open>Synthetic power-meter telemetry: the script \<open>Dummy.js\<close>\<close>

text \<open>
  The script draws random meter readings for every day of the last two months and then,
  depending on an interactive answer, inserts them into a document collection or deletes
  the collection's documents. Everything the script reads from its surroundings is an
  explicit input of the model:
  \<^item> the numbers returned by successive calls of \<open>Math.random()\<close>;
  \<^item> the instants returned by successive evaluations of \<open>new Date()\<close>;
  \<^item> the host's time zone (ECMAScript's implementation-defined \<open>LocalTZA\<close>);
  \<^item> the two lines typed at the prompts;
  \<^item> which calls of the database client reject.

  \<^item> the host's floating-point multiplication, for the product that gives the power.

  JavaScript numbers are modelled as exact rationals, and a decimal string produced by
  \<open>toFixed\<close> is identified with the number it denotes, which is what \<open>parseFloat\<close> and
  the implicit conversion in a product read back from it. Sums are exact: the rounding
  error of an IEEE-754 double sum is not part of the model. The product
  \<open>voltage * current * pf\<close> is not taken exactly, because its exact value can sit on a tie
  of \<open>toFixed(2)\<close> where the double product lies just under it: at 225.0, 0.010 and 0.82
  the exact product is 1.845, the double product 1.84499999999999997, and the script
  stores the power 1.84. The two multiplications are therefore the host's (\<open>multiply\<close>),
  and a property that depends on their accuracy assumes it (\<open>accurate\<close>).
\<close>

subsection \<open>Numbers\<close>

text \<open>
  \<open>Number.prototype.toFixed(f)\<close>: the decimal with \<open>f\<close> fraction digits that is nearest
  to \<open>x\<close>, the larger one on a tie; a negative \<open>x\<close> is negated first and the sign put back.
\<close>

definition toFixed :: "nat \<Rightarrow> rat \<Rightarrow> rat" where
  "toFixed f x =
     (if x < 0 then - (of_int \<lfloor>- x * 10 ^ f + 1 / 2\<rfloor> / 10 ^ f)
      else of_int \<lfloor>x * 10 ^ f + 1 / 2\<rfloor> / 10 ^ f)"

text \<open>\<open>parseFloat\<close> of a number, or of the decimal string \<open>toFixed\<close> made.\<close>

definition parseFloat :: "rat \<Rightarrow> rat" where
  "parseFloat x = x"

text \<open>
  The result of \<open>parseInt\<close> on a line typed by the user: an integer, or \<open>NaN\<close> when the
  line does not start with one.
\<close>

datatype number = NaN | Num int

text \<open>
  \<open>parseInt(string)\<close> with no radix (ECMA-262, section 19.2.5), step by step: leading
  white space is dropped, then a sign, then the prefix \<open>0x\<close> or \<open>0X\<close>, which selects the
  radix 16; the digits up to the first character that is not a digit of the radix are
  read and the rest of the line is ignored; without a digit the result is \<open>NaN\<close>. A line
  is a string of the characters with codes below 256, of which the standard counts
  those with the codes 9 to 13, 32 and 160 as white space. The result is the exact
  integer, where the standard returns the nearest double; the two differ only beyond
  2^53, and \<open>-0\<close> is \<open>0\<close>.
\<close>

definition isStrWhiteSpaceChar :: "char \<Rightarrow> bool" where
  "isStrWhiteSpaceChar c = (of_char c \<in> {9, 10, 11, 12, 13, 32, 160 :: nat})"

definition radixDigitValue :: "char \<Rightarrow> nat option" where
  "radixDigitValue c =
     (let n = of_char c :: nat
      in if 48 \<le> n \<and> n \<le> 57 then Some (n - 48)
         else if 97 \<le> n \<and> n \<le> 122 then Some (n - 87)
         else if 65 \<le> n \<and> n \<le> 90 then Some (n - 55)
         else None)"

definition isRadixDigit :: "nat \<Rightarrow> char \<Rightarrow> bool" where
  "isRadixDigit R c = (case radixDigitValue c of None \<Rightarrow> False | Some v \<Rightarrow> v < R)"

definition mathInt :: "nat \<Rightarrow> string \<Rightarrow> nat" where
  "mathInt R Z = foldl (\<lambda>a c. R * a + (case radixDigitValue c of None \<Rightarrow> 0 | Some v \<Rightarrow> v)) 0 Z"

definition parseInt :: "string \<Rightarrow> number" where
  "parseInt inputString =
     (let S = dropWhile isStrWhiteSpaceChar inputString;
          sign = (if S \<noteq> [] \<and> hd S = CHR ''-'' then - 1 else 1);
          S1 = (if S \<noteq> [] \<and> (hd S = CHR ''+'' \<or> hd S = CHR ''-'') then tl S else S);
          stripPrefix = (length S1 \<ge> 2 \<and> (take 2 S1 = ''0x'' \<or> take 2 S1 = ''0X''));
          R = (if stripPrefix then 16 else 10);
          S2 = (if stripPrefix then drop 2 S1 else S1);
          Z = takeWhile (isRadixDigit R) S2
      in if Z = [] then NaN else Num (sign * int (mathInt R Z)))"

subsection \<open>One reading\<close>

text \<open>
  The object \<open>generateRandomData\<close> returns. The field \<open>power\<close> of the source is called
  \<open>power_w\<close> here.
\<close>

record reading =
  voltage :: rat
  current :: rat
  power_w :: rat
  energy :: rat
  frequency :: rat
  pf :: rat

text \<open>
  \<open>random\<close> is the sequence of values of \<open>Math.random()\<close> and \<open>k\<close> the number of values
  already drawn. The four draws are made in the source's order: voltage, power factor,
  current, frequency. \<open>multiply a b\<close> is the double the host computes for \<open>a * b\<close>;
  \<open>voltage * current * pf\<close> multiplies from the left.
\<close>

definition generateRandomData ::
  "(nat \<Rightarrow> rat) \<Rightarrow> (rat \<Rightarrow> rat \<Rightarrow> rat) \<Rightarrow> nat \<Rightarrow> rat \<Rightarrow> reading" where
  "generateRandomData random multiply k energy0 =
     (let voltage0 = toFixed 1 (random k * (245 - 225) + 225);
          pf0 = toFixed 2 (random (k + 1) * (1 / 10) + 8 / 10);
          current0 = toFixed 3 (random (k + 2) * (1 - 1 / 100) + 1 / 100);
          power0 = toFixed 2 (multiply (multiply voltage0 current0) pf0);
          frequency0 = toFixed 1 (random (k + 3) * (1 / 10) + 498 / 10);
          formattedEnergy = toFixed 3 (parseFloat energy0)
      in \<lparr> voltage = parseFloat voltage0,
           current = parseFloat current0,
           power_w = parseFloat power0,
           energy = parseFloat formattedEnergy,
           frequency = parseFloat frequency0,
           pf = parseFloat pf0 \<rparr>)"

text \<open>The values \<open>Math.random()\<close> may return: at least 0 and less than 1.\<close>

definition unit_interval :: "(nat \<Rightarrow> rat) \<Rightarrow> bool" where
  "unit_interval random = (\<forall>k. 0 \<le> random k \<and> random k < 1)"

text \<open>
  A multiplication is accurate when, on products of size up to 1000, it is within one
  billionth of the exact product. Double multiplication is: the relative error of a
  double product, the conversion of its decimal operands included, is below 1e-15.
\<close>

definition accurate :: "(rat \<Rightarrow> rat \<Rightarrow> rat) \<Rightarrow> bool" where
  "accurate multiply =
     (\<forall>a b. \<bar>a * b\<bar> \<le> 1000 \<longrightarrow> \<bar>multiply a b - a * b\<bar> \<le> 1 / 1000000000)"

subsection \<open>Time values and the calendar (ECMA-262, section 21.4.1)\<close>

text \<open>
  A \<open>Date\<close> object holds a time value: milliseconds since 1970-01-01T00:00:00Z. The
  functions below are the abstract operations of the language standard, with its names.
  Time values are unbounded integers here: the standard's limit of 8.64e15 milliseconds
  on either side of the epoch (\<open>TimeClip\<close>) is far from every instant a clock returns.
\<close>

definition msPerDay :: int where
  "msPerDay = 86400000"

definition Day :: "int \<Rightarrow> int" where
  "Day t = t div msPerDay"

definition TimeWithinDay :: "int \<Rightarrow> int" where
  "TimeWithinDay t = t mod msPerDay"

definition DaysInYear :: "int \<Rightarrow> int" where
  "DaysInYear y =
     (if y mod 4 \<noteq> 0 then 365
      else if y mod 100 \<noteq> 0 then 366
      else if y mod 400 \<noteq> 0 then 365
      else 366)"

definition DayFromYear :: "int \<Rightarrow> int" where
  "DayFromYear y =
     365 * (y - 1970) + (y - 1969) div 4 - (y - 1901) div 100 + (y - 1601) div 400"

text \<open>
  The standard defines \<open>YearFromTime t\<close> as the largest \<open>y\<close> with
  \<open>DayFromYear y \<le> Day t\<close>. It is computed here by counting, from 2001-01-01 (day
  11323), whole cycles of 400 years (146097 days), then centuries (36524 days), then
  groups of four years (1461 days), then years; \<open>YearFromTime_largest\<close> below proves that
  this is the year of the standard.
\<close>

definition YearFromTime :: "int \<Rightarrow> int" where
  "YearFromTime t =
     (let n = Day t - 11323;
          n400 = n div 146097;
          r400 = n mod 146097;
          n100 = min (r400 div 36524) 3;
          r100 = r400 - n100 * 36524;
          n4 = r100 div 1461;
          r4 = r100 mod 1461;
          n1 = min (r4 div 365) 3
      in 2001 + 400 * n400 + 100 * n100 + 4 * n4 + n1)"

definition InLeapYear :: "int \<Rightarrow> int" where
  "InLeapYear t = (if DaysInYear (YearFromTime t) = 366 then 1 else 0)"

definition DayWithinYear :: "int \<Rightarrow> int" where
  "DayWithinYear t = Day t - DayFromYear (YearFromTime t)"

text \<open>
  The number of days of a year before its month \<open>m\<close> (0 is January), \<open>leap\<close> being 1 in
  a leap year and 0 otherwise: the bounds of the standard's table for \<open>MonthFromTime\<close>.
\<close>

definition DaysBeforeMonth :: "int \<Rightarrow> int \<Rightarrow> int" where
  "DaysBeforeMonth m leap =
     (if m = 0 then 0
      else if m = 1 then 31
      else if m = 2 then 59 + leap
      else if m = 3 then 90 + leap
      else if m = 4 then 120 + leap
      else if m = 5 then 151 + leap
      else if m = 6 then 181 + leap
      else if m = 7 then 212 + leap
      else if m = 8 then 243 + leap
      else if m = 9 then 273 + leap
      else if m = 10 then 304 + leap
      else 334 + leap)"

definition MonthFromTime :: "int \<Rightarrow> int" where
  "MonthFromTime t =
     (let d = DayWithinYear t; leap = InLeapYear t
      in if d < 31 then 0
         else if d < 59 + leap then 1
         else if d < 90 + leap then 2
         else if d < 120 + leap then 3
         else if d < 151 + leap then 4
         else if d < 181 + leap then 5
         else if d < 212 + leap then 6
         else if d < 243 + leap then 7
         else if d < 273 + leap then 8
         else if d < 304 + leap then 9
         else if d < 334 + leap then 10
         else 11)"

definition DateFromTime :: "int \<Rightarrow> int" where
  "DateFromTime t =
     DayWithinYear t - DaysBeforeMonth (MonthFromTime t) (InLeapYear t) + 1"

definition HourFromTime :: "int \<Rightarrow> int" where
  "HourFromTime t = (t div 3600000) mod 24"

definition MinFromTime :: "int \<Rightarrow> int" where
  "MinFromTime t = (t div 60000) mod 60"

definition SecFromTime :: "int \<Rightarrow> int" where
  "SecFromTime t = (t div 1000) mod 60"

text \<open>
  \<open>MakeDay year month date\<close>: the day number of the first day of the month, found in
  closed form, plus \<open>date - 1\<close>. A month outside 0..11 carries into the year and a date
  outside the month carries into the neighbouring months, as in the standard.
\<close>

definition MakeDay :: "int \<Rightarrow> int \<Rightarrow> int \<Rightarrow> int" where
  "MakeDay year month date0 =
     (let ym = year + month div 12;
          mn = month mod 12;
          leap = (if DaysInYear ym = 366 then 1 else 0)
      in DayFromYear ym + DaysBeforeMonth mn leap + date0 - 1)"

definition MakeDate :: "int \<Rightarrow> int \<Rightarrow> int" where
  "MakeDate day0 time0 = day0 * msPerDay + time0"

text \<open>
  The host's time zone is the standard's \<open>LocalTZA(t, isUTC)\<close>: the offset of local time
  from UTC in milliseconds, at the UTC instant \<open>t\<close> when \<open>isUTC\<close> holds and at the local
  time \<open>t\<close> otherwise.
\<close>

type_synonym zone = "int \<Rightarrow> bool \<Rightarrow> int"

definition LocalTime :: "zone \<Rightarrow> int \<Rightarrow> int" where
  "LocalTime z t = t + z t True"

definition UTC :: "zone \<Rightarrow> int \<Rightarrow> int" where
  "UTC z t = t - z t False"

text \<open>A zone without transitions: local time is always \<open>c\<close> milliseconds ahead of UTC.\<close>

definition fixed_zone :: "int \<Rightarrow> zone" where
  "fixed_zone c = (\<lambda>t isUTC. c)"

subsection \<open>The methods of \<open>Date\<close> the script calls\<close>

definition getMonth :: "zone \<Rightarrow> int \<Rightarrow> int" where
  "getMonth z t = MonthFromTime (LocalTime z t)"

definition getDate :: "zone \<Rightarrow> int \<Rightarrow> int" where
  "getDate z t = DateFromTime (LocalTime z t)"

definition getHours :: "zone \<Rightarrow> int \<Rightarrow> int" where
  "getHours z t = HourFromTime (LocalTime z t)"

definition getMinutes :: "zone \<Rightarrow> int \<Rightarrow> int" where
  "getMinutes z t = MinFromTime (LocalTime z t)"

definition getSeconds :: "zone \<Rightarrow> int \<Rightarrow> int" where
  "getSeconds z t = SecFromTime (LocalTime z t)"

text \<open>\<open>setMonth(month)\<close> and \<open>setDate(date)\<close> return the new time value of the object.\<close>

definition setMonth :: "zone \<Rightarrow> int \<Rightarrow> int \<Rightarrow> int" where
  "setMonth z t month =
     (let lt = LocalTime z t
      in UTC z (MakeDate (MakeDay (YearFromTime lt) month (DateFromTime lt)) (TimeWithinDay lt)))"

definition setDate :: "zone \<Rightarrow> int \<Rightarrow> int \<Rightarrow> int" where
  "setDate z t date0 =
     (let lt = LocalTime z t
      in UTC z (MakeDate (MakeDay (YearFromTime lt) (MonthFromTime lt) date0) (TimeWithinDay lt)))"

subsection \<open>Strings\<close>

text \<open>The decimal digits of a natural number, as \<open>Number.prototype.toString\<close> writes them.\<close>

fun digits :: "nat \<Rightarrow> string" where
  "digits n = (if n < 10 then [''0123456789'' ! n] else digits (n div 10) @ [''0123456789'' ! (n mod 10)])"

declare digits.simps [simp del]

definition toString :: "int \<Rightarrow> string" where
  "toString i = (if i < 0 then ''-'' @ digits (nat (- i)) else digits (nat i))"

definition padStart :: "nat \<Rightarrow> char \<Rightarrow> string \<Rightarrow> string" where
  "padStart n c s = replicate (n - length s) c @ s"

text \<open>
  \<open>toISOString().split('T')[0]\<close>: the UTC calendar date, \<open>YYYY-MM-DD\<close>; a year outside
  0..9999 is written with a sign and six digits.
\<close>

definition isoYear :: "int \<Rightarrow> string" where
  "isoYear y =
     (if 0 \<le> y \<and> y \<le> 9999 then padStart 4 (CHR ''0'') (digits (nat y))
      else (if y < 0 then ''-'' else ''+'') @ padStart 6 (CHR ''0'') (digits (nat \<bar>y\<bar>)))"

definition toISODate :: "int \<Rightarrow> string" where
  "toISODate t =
     isoYear (YearFromTime t) @ ''-'' @
     padStart 2 (CHR ''0'') (digits (nat (MonthFromTime t + 1))) @ ''-'' @
     padStart 2 (CHR ''0'') (digits (nat (DateFromTime t)))"

text \<open>\<open>formatTime\<close>, applied to a \<open>Date\<close> with time value \<open>date0\<close>.\<close>

definition formatTime :: "zone \<Rightarrow> int \<Rightarrow> string" where
  "formatTime z date0 =
     (let hours = getHours z date0;
          minutes = getMinutes z date0;
          seconds = getSeconds z date0;
          ampm = (if hours \<ge> 12 then ''PM'' else ''AM'');
          hours1 = hours mod 12;
          hours2 = (if hours1 \<noteq> 0 then hours1 else 12)
      in toString hours2 @ '':'' @ padStart 2 (CHR ''0'') (toString minutes) @ '':'' @
         padStart 2 (CHR ''0'') (toString seconds) @ '' '' @ ampm)"


subsection \<open>The host of a run\<close>

text \<open>
  \<open>now k\<close> is the time value of the \<open>k\<close>-th evaluation of \<open>new Date()\<close>, \<open>random k\<close> the
  \<open>k\<close>-th value of \<open>Math.random()\<close> (both counted from 0), \<open>multiply\<close> the multiplication
  of numbers, and \<open>rejects c\<close> tells whether the promise of the database call \<open>c\<close>
  rejects. A rejected call is taken to leave the collection as it was.
\<close>

datatype storage_call = Connect | ListCollections | InsertMany | Find | DeleteMany | Disconnect

record host =
  LocalTZA :: zone
  now :: "nat \<Rightarrow> int"
  random :: "nat \<Rightarrow> rat"
  multiply :: "rat \<Rightarrow> rat \<Rightarrow> rat"
  rejects :: "storage_call \<Rightarrow> bool"

subsection \<open>The records of the last two months\<close>

record telemetry = reading +
  date :: string
  time :: string
  timestamp :: int

text \<open>The object spread \<open>{ ...randomData, date, time, timestamp }\<close>.\<close>

definition spread :: "reading \<Rightarrow> string \<Rightarrow> string \<Rightarrow> int \<Rightarrow> telemetry" where
  "spread randomData dateString timeString stamp =
     \<lparr> voltage = voltage randomData,
       current = current randomData,
       power_w = power_w randomData,
       energy = energy randomData,
       frequency = frequency randomData,
       pf = pf randomData,
       date = dateString,
       time = timeString,
       timestamp = stamp \<rparr>"

text \<open>
  The body of the loop up to the \<open>push\<close>: the record for the day \<open>d\<close>, when \<open>k\<close> random
  numbers and \<open>c\<close> clock readings have been consumed so far. \<open>new Date(d)\<close> copies the
  time value of \<open>d\<close>; \<open>timestamp: new Date()\<close> reads the clock.
\<close>

definition prepare :: "host \<Rightarrow> int \<Rightarrow> rat \<Rightarrow> nat \<Rightarrow> nat \<Rightarrow> telemetry" where
  "prepare h d initialEnergy k c =
     (let dateString = toISODate d;
          timeString = formatTime (LocalTZA h) d;
          randomData = generateRandomData (random h) (multiply h) k (parseFloat initialEnergy)
      in spread randomData dateString timeString (now h c))"

text \<open>The energy of the next day: the last statement of the loop body.\<close>

definition increase :: "number \<Rightarrow> rat \<Rightarrow> rat" where
  "increase energyType initialEnergy =
     toFixed 3 (parseFloat initialEnergy + (if energyType = Num 1 then 3 / 1000 else 1 / 2))"

text \<open>The update of the loop: \<open>d.setDate(d.getDate() + 1)\<close>.\<close>

definition next_day :: "zone \<Rightarrow> int \<Rightarrow> int" where
  "next_day z d = setDate z d (getDate z d + 1)"

text \<open>
  The loop \<open>for (let d = twoMonthsAgo; d <= today; d.setDate(d.getDate() + 1))\<close>. It
  returns \<open>None\<close> when it runs forever, which a time zone whose offset jumps back by a
  day at every step would cause.
\<close>

partial_function (option) days_loop ::
  "host \<Rightarrow> number \<Rightarrow> int \<Rightarrow> int \<Rightarrow> rat \<Rightarrow> nat \<Rightarrow> nat \<Rightarrow> telemetry list \<Rightarrow> telemetry list option"
where
  "days_loop h energyType today d initialEnergy k c dataToInsert =
     (if d \<le> today then
        days_loop h energyType today (next_day (LocalTZA h) d)
          (increase energyType initialEnergy) (k + 4) (c + 1)
          (dataToInsert @ [prepare h d initialEnergy k c])
      else Some dataToInsert)"

declare days_loop.simps [code]

text \<open>
  The first part of \<open>generateDataForTwoMonths\<close> (lines 63 to 90): the two clock
  readings, the starting energy and the loop. \<open>today\<close> is the first reading of the clock
  and \<open>twoMonthsAgo\<close> the second one, moved back by \<open>setMonth\<close>. Any \<open>energyType\<close> other
  than 1 takes the \<open>else\<close> branch of the starting energy.
\<close>

definition twoMonthsAgo :: "host \<Rightarrow> int" where
  "twoMonthsAgo h = setMonth (LocalTZA h) (now h 1) (getMonth (LocalTZA h) (now h 0) - 2)"

definition initialEnergy :: "host \<Rightarrow> number \<Rightarrow> rat" where
  "initialEnergy h energyType =
     (if energyType = Num 1 then toFixed 3 (random h 0 * (1 - 1 / 2) + 1 / 2)
      else toFixed 3 (random h 0 * (250 - 150) + 150))"

definition generateData :: "host \<Rightarrow> number \<Rightarrow> telemetry list option" where
  "generateData h energyType =
     days_loop h energyType (now h 0) (twoMonthsAgo h) (initialEnergy h energyType) 1 2 []"

subsection \<open>The collection and the console\<close>

text \<open>
  The documents of the collection carry the identifier the database gave them. \<open>calls\<close>
  lists the database calls that were started, in order, and \<open>console\<close> the lines written
  from the \<open>try\<close> statement on (the lines that echo the generated records are left out).
\<close>

datatype console_line =
    Connecting
  | Connected
  | CollectionMissing
  | Inserting nat
  | Inserted nat
  | Deleted nat
  | NoRecordsFound
  | InvalidAction
  | ErrorLine storage_call
  | Disconnected

record world =
  collection_exists :: bool
  documents :: "(nat \<times> telemetry) list"
  next_id :: nat
  connected :: bool
  calls :: "storage_call list"
  console :: "console_line list"

definition attempt :: "storage_call \<Rightarrow> world \<Rightarrow> world" where
  "attempt c w = w\<lparr>calls := calls w @ [c]\<rparr>"

definition say :: "console_line \<Rightarrow> world \<Rightarrow> world" where
  "say l w = w\<lparr>console := console w @ [l]\<rparr>"

text \<open>A successful \<open>insertMany\<close>: every record becomes a document with a fresh identifier.\<close>

definition insertMany :: "telemetry list \<Rightarrow> world \<Rightarrow> world" where
  "insertMany recs w =
     w\<lparr>collection_exists := True,
       documents := documents w @ zip [next_id w ..< next_id w + length recs] recs,
       next_id := next_id w + length recs\<rparr>"

text \<open>A successful \<open>deleteMany({ _id: { $in: ids } })\<close>, and its \<open>deletedCount\<close>.\<close>

definition deleteMany :: "nat list \<Rightarrow> world \<Rightarrow> world" where
  "deleteMany ids w = w\<lparr>documents := filter (\<lambda>doc. fst doc \<notin> set ids) (documents w)\<rparr>"

definition deletedCount :: "nat list \<Rightarrow> world \<Rightarrow> nat" where
  "deletedCount ids w = length (filter (\<lambda>doc. fst doc \<in> set ids) (documents w))"

text \<open>
  The \<open>try\<close> block. The result says which call threw, if one did. \<open>action\<close> is what
  \<open>askUserAction\<close> resolves to; the question is asked only after the connection is made
  and the collections are listed.
\<close>

definition try_block ::
  "host \<Rightarrow> number \<Rightarrow> telemetry list \<Rightarrow> world \<Rightarrow> storage_call option \<times> world" where
  "try_block h action dataToInsert w0 =
     (let w1 = attempt Connect (say Connecting w0) in
      if rejects h Connect then (Some Connect, w1)
      else
        let w2 = attempt ListCollections (say Connected (w1\<lparr>connected := True\<rparr>)) in
        if rejects h ListCollections then (Some ListCollections, w2)
        else
          let w3 = (if collection_exists w2 then w2 else say CollectionMissing w2) in
          if action = Num 1 then
            let w4 = attempt InsertMany (say (Inserting (length dataToInsert)) w3) in
            if rejects h InsertMany then (Some InsertMany, w4)
            else (None, say (Inserted (length dataToInsert)) (insertMany dataToInsert w4))
          else if action = Num 2 then
            let w4 = attempt Find w3 in
            if rejects h Find then (Some Find, w4)
            else
              let recordsToDelete = documents w4 in
              if length recordsToDelete > 0 then
                let idsToDelete = map fst recordsToDelete;
                    w5 = attempt DeleteMany w4
                in if rejects h DeleteMany then (Some DeleteMany, w5)
                   else (None, say (Deleted (deletedCount idsToDelete w5)) (deleteMany idsToDelete w5))
              else (None, say NoRecordsFound w4)
          else (None, say InvalidAction w3))"

text \<open>
  How the promise of \<open>generateDataForTwoMonths\<close> settles: it resolves, or it rejects with
  the error of a call that no handler caught.
\<close>

datatype outcome = Resolved | Rejected storage_call

text \<open>
  The whole function: the records, then \<open>try\<close>, \<open>catch\<close> (one line on the console) and
  \<open>finally\<close> (the disconnect, whose own rejection nothing catches).
\<close>

definition generateDataForTwoMonths ::
  "host \<Rightarrow> number \<Rightarrow> number \<Rightarrow> world \<Rightarrow> (outcome \<times> world) option" where
  "generateDataForTwoMonths h energyType action w0 =
     (case generateData h energyType of
        None \<Rightarrow> None
      | Some dataToInsert \<Rightarrow>
          (let tried = try_block h action dataToInsert w0;
               w1 = (case fst tried of
                       None \<Rightarrow> snd tried
                     | Some c \<Rightarrow> say (ErrorLine c) (snd tried));
               w2 = attempt Disconnect w1
           in if rejects h Disconnect then Some (Rejected Disconnect, w2)
              else Some (Resolved, say Disconnected (w2\<lparr>connected := False\<rparr>))))"

text \<open>
  \<open>runDataGeneration\<close>: \<open>energyType\<close> is what \<open>askEnergyType\<close> resolves to. The script
  calls it without a handler, so a rejection ends the process with an unhandled
  rejection.
\<close>

definition runDataGeneration ::
  "host \<Rightarrow> number \<Rightarrow> number \<Rightarrow> world \<Rightarrow> (outcome \<times> world) option" where
  "runDataGeneration h energyType action w0 = generateDataForTwoMonths h energyType action w0"

text \<open>
  The two prompts: each resolves to \<open>parseInt(answer)\<close>, \<open>answer\<close> being the line typed.
  \<open>script\<close> is the run of the whole file from the two lines typed.
\<close>

definition askUserAction :: "string \<Rightarrow> number" where
  "askUserAction answer = parseInt answer"

definition askEnergyType :: "string \<Rightarrow> number" where
  "askEnergyType answer = parseInt answer"

definition script :: "host \<Rightarrow> string \<Rightarrow> string \<Rightarrow> world \<Rightarrow> (outcome \<times> world) option" where
  "script h modeAnswer actionAnswer w0 =
     runDataGeneration h (askEnergyType modeAnswer) (askUserAction actionAnswer) w0"


subsection \<open>The loop, unrolled\<close>

text \<open>
  A zone is steady when no two of its offsets differ by a day or more, which holds for
  a zone with a constant offset and for one that moves its clocks by an hour in spring
  and autumn. In a steady zone \<open>setDate\<close> moves \<open>d\<close> forward and the loop ends.
\<close>

definition steady :: "zone \<Rightarrow> bool" where
  "steady z = (\<forall>t b t' b'. \<bar>z t b - z t' b'\<bar> < msPerDay)"

text \<open>
  The values of \<open>d\<close> and of \<open>initialEnergy\<close> at the start of iteration \<open>i\<close>, and the record
  that iteration pushes, when the loop starts from \<open>d\<close> and \<open>e\<close> with \<open>k\<close> random numbers
  and \<open>c\<close> clock readings consumed.
\<close>

definition day_at :: "zone \<Rightarrow> int \<Rightarrow> nat \<Rightarrow> int" where
  "day_at z d i = (next_day z ^^ i) d"

definition energy_at :: "number \<Rightarrow> rat \<Rightarrow> nat \<Rightarrow> rat" where
  "energy_at energyType e i = (increase energyType ^^ i) e"

definition record_at :: "host \<Rightarrow> number \<Rightarrow> int \<Rightarrow> rat \<Rightarrow> nat \<Rightarrow> nat \<Rightarrow> nat \<Rightarrow> telemetry" where
  "record_at h energyType d e k c i =
     prepare h (day_at (LocalTZA h) d i) (energy_at energyType e i) (k + 4 * i) (c + i)"

text \<open>
  The local times the script asks the zone for. \<open>setMonth\<close> asks for the local time
  \<open>start_local\<close>: the time of day of line 64's reading of the clock, two months
  earlier. Each \<open>setDate\<close> of the loop asks for the local time one day after the local
  time of \<open>d\<close>; as long as the zone gives what it is asked for, the \<open>i\<close>-th record is
  asked for \<open>asked_local h i\<close>. A local time exists in a zone when the instant the zone
  takes it for reads as that local time again; it does not when a transition skips it
  (the clocks are put forward over it).
\<close>

definition start_local :: "host \<Rightarrow> int" where
  "start_local h =
     (let lt = LocalTime (LocalTZA h) (now h 1)
      in MakeDate (MakeDay (YearFromTime lt) (getMonth (LocalTZA h) (now h 0) - 2) (DateFromTime lt))
           (TimeWithinDay lt))"

definition asked_local :: "host \<Rightarrow> nat \<Rightarrow> int" where
  "asked_local h i = start_local h + int i * msPerDay"

definition exists_locally :: "zone \<Rightarrow> int \<Rightarrow> bool" where
  "exists_locally z t = (LocalTime z (UTC z t) = t)"

text \<open>The loop stops after \<open>n\<close> iterations with \<open>recs\<close>: \<open>acc\<close> and \<open>n\<close> more records.\<close>

definition unrolled ::
  "host \<Rightarrow> number \<Rightarrow> int \<Rightarrow> int \<Rightarrow> rat \<Rightarrow> nat \<Rightarrow> nat \<Rightarrow> telemetry list \<Rightarrow> telemetry list \<Rightarrow> bool" where
  "unrolled h m today d e k c acc recs =
     (\<exists>n. (\<forall>i<n. day_at (LocalTZA h) d i \<le> today) \<and> today < day_at (LocalTZA h) d n \<and>
          recs = acc @ map (record_at h m d e k c) [0..<n])"


subsection \<open>A host to run on\<close>

text \<open>
  A run on 2024-05-09 at 12:00:00 in a zone five and a half hours ahead of UTC, with
  every reading of the clock in the same millisecond, a healthy database, random
  numbers that cycle through 0, 0.1, ..., 0.9, and products without rounding error.
\<close>

definition example_host :: host where
  "example_host =
     \<lparr> LocalTZA = fixed_zone 19800000,
       now = (\<lambda>k. 1715236200000),
       random = (\<lambda>k. of_nat (k mod 10) / 10),
       multiply = (\<lambda>a b. a * b),
       rejects = (\<lambda>c. False) \<rparr>"

text \<open>
  The number of iterations of the loop when \<open>setDate\<close> adds exactly one day, as it does in
  a zone without transitions.
\<close>

definition days_covered :: "host \<Rightarrow> nat" where
  "days_covered h =
     (if twoMonthsAgo h \<le> now h 0 then nat ((now h 0 - twoMonthsAgo h) div msPerDay) + 1 else 0)"

text \<open>
  The same run, except that the clock moves on by one millisecond between the two
  \<open>new Date()\<close> of lines 63 and 64.
\<close>

definition tick_host :: host where
  "tick_host = example_host\<lparr>now := (\<lambda>k. if k = 0 then 1715236200000 else 1715236200001)\<rparr>"

text \<open>
  The zone of New York in 2024: five hours behind UTC, four from 2024-03-10T07:00:00Z to
  2024-11-03T06:00:00Z. A local time is read with the offset in force before a
  transition when it was skipped or occurred twice, as the standard prescribes. The run
  on \<open>dst_host\<close> starts on 2024-05-09 at 02:30:00 local time.
\<close>

definition us_eastern_2024 :: zone where
  "us_eastern_2024 t isUTC =
     (if isUTC then (if 1710054000000 \<le> t \<and> t < 1730613600000 then - 14400000 else - 18000000)
      else (if 1710039600000 \<le> t \<and> t < 1730599200000 then - 14400000 else - 18000000))"

definition dst_host :: host where
  "dst_host = example_host\<lparr>LocalTZA := us_eastern_2024\<rparr>"

text \<open>
  A run in the same zone on 2024-05-09 at 12:00:00 local time (16:00:00Z): it starts on
  2024-03-09 at noon and crosses the change to summer time of 2024-03-10.
\<close>

definition noon_host :: host where
  "noon_host = example_host\<lparr>LocalTZA := us_eastern_2024, now := (\<lambda>k. 1715270400000)\<rparr>"

text \<open>
  The same run with the random numbers that give every record the voltage 225.0, the
  current 0.010 and the power factor 0.82, and with a product by 0.82 that is just
  under the exact product, as the double product is at these values.
\<close>

definition tie_host :: host where
  "tie_host =
     example_host
       \<lparr> random := (\<lambda>k. if k mod 4 = 2 then 2 / 10 else 0),
         multiply := (\<lambda>a b. if b = 82 / 100 then a * b - 1 / 10 ^ 16 else a * b) \<rparr>"

text \<open>
  A collection that does not exist yet, before anything is written to the console, and
  two hosts whose database fails: one rejects \<open>insertMany\<close>, the other \<open>disconnect\<close>.
\<close>

definition empty_world :: world where
  "empty_world =
     \<lparr> collection_exists = False, documents = [], next_id = 0, connected = False,
       calls = [], console = [] \<rparr>"

definition insert_fails_host :: host where
  "insert_fails_host = example_host\<lparr>rejects := (\<lambda>c. c = InsertMany)\<rparr>"

definition disconnect_fails_host :: host where
  "disconnect_fails_host = example_host\<lparr>rejects := (\<lambda>c. c = Disconnect)\<rparr>"

subsection \<open>The \<open>try\<close> block, column by column\<close>

text \<open>
  The database calls the \<open>try\<close> block starts, in order, and the call whose rejection
  ends it, as functions of the host, the action and whether the collection holds a
  document; \<open>try_block_calls\<close> and \<open>try_block_thrown\<close> show that \<open>try_block\<close> does
  exactly this.
\<close>

definition attempted :: "host \<Rightarrow> number \<Rightarrow> bool \<Rightarrow> storage_call list" where
  "attempted h action nonempty =
     Connect #
     (if rejects h Connect then []
      else ListCollections #
        (if rejects h ListCollections then []
         else if action = Num 1 then [InsertMany]
         else if action = Num 2 then
           Find # (if rejects h Find then [] else if nonempty then [DeleteMany] else [])
         else []))"

definition thrown :: "host \<Rightarrow> number \<Rightarrow> bool \<Rightarrow> storage_call option" where
  "thrown h action nonempty =
     (if rejects h Connect then Some Connect
      else if rejects h ListCollections then Some ListCollections
      else if action = Num 1 then (if rejects h InsertMany then Some InsertMany else None)
      else if action = Num 2 then
        (if rejects h Find then Some Find
         else if nonempty \<and> rejects h DeleteMany then Some DeleteMany
         else None)
      else None)"

subsection \<open>Reading a date back\<close>

text \<open>
  The inverse of \<open>toISODate\<close>: the number a string of decimal digits writes, and the
  year, month (from 0) and day of the month of a date string. It serves to show that two
  days never share a date string.
\<close>

definition digit_val :: "char \<Rightarrow> nat" where
  "digit_val c = of_char c - 48"

definition decimal :: "string \<Rightarrow> nat" where
  "decimal s = foldl (\<lambda>a c. 10 * a + digit_val c) 0 s"

definition readYear :: "string \<Rightarrow> int" where
  "readYear s =
     (if length s = 4 then int (decimal s)
      else if hd s = CHR ''-'' then - int (decimal (tl s))
      else int (decimal (tl s)))"

definition readISODate :: "string \<Rightarrow> int \<times> int \<times> int" where
  "readISODate s =
     (let n = length s
      in (readYear (take (n - 6) s),
          int (decimal (take 2 (drop (n - 5) s))) - 1,
          int (decimal (drop (n - 2) s))))"

section \<open>Properties\<close>

subsection \<open>Rounding to a fixed number of decimals\<close>

lemma toFixed_nonneg:
  assumes "0 \<le> x"
  shows "toFixed f x = of_int \<lfloor>x * 10 ^ f + 1 / 2\<rfloor> / 10 ^ f"
  using assms by (simp add: toFixed_def)

lemma toFixed_bounds:
  assumes lo: "of_int a / 10 ^ f \<le> x" and hi: "x \<le> of_int b / 10 ^ f" and nn: "0 \<le> x"
  shows "of_int a / 10 ^ f \<le> toFixed f x \<and> toFixed f x \<le> of_int b / 10 ^ f"
proof -
  have p: "(0::rat) < 10 ^ f" by simp
  from lo p have "of_int a \<le> x * 10 ^ f" by (simp add: pos_divide_le_eq)
  then have "of_int a \<le> x * 10 ^ f + 1 / 2" by simp
  then have l: "a \<le> \<lfloor>x * 10 ^ f + 1 / 2\<rfloor>" by (simp add: le_floor_iff)
  from hi p have "x * 10 ^ f \<le> of_int b" by (simp add: pos_le_divide_eq)
  then have "x * 10 ^ f + 1 / 2 < of_int b + 1" by simp
  then have "x * 10 ^ f + 1 / 2 < of_int (b + 1)" by simp
  then have "\<lfloor>x * 10 ^ f + 1 / 2\<rfloor> < b + 1" by (simp only: floor_less_iff)
  then have u: "\<lfloor>x * 10 ^ f + 1 / 2\<rfloor> \<le> b" by simp
  from l have "(of_int a :: rat) \<le> of_int \<lfloor>x * 10 ^ f + 1 / 2\<rfloor>" by (simp only: of_int_le_iff)
  moreover from u have "(of_int \<lfloor>x * 10 ^ f + 1 / 2\<rfloor> :: rat) \<le> of_int b"
    by (simp only: of_int_le_iff)
  ultimately show ?thesis
    using p by (simp add: toFixed_nonneg [OF nn] divide_le_cancel)
qed

lemma toFixed_of_int:
  assumes "0 \<le> n"
  shows "toFixed f (of_int n / 10 ^ f) = of_int n / 10 ^ f"
proof -
  have "\<lfloor>(of_int n :: rat) + 1 / 2\<rfloor> = n" by (simp add: floor_unique)
  moreover have "0 \<le> (of_int n :: rat) / 10 ^ f" using assms by simp
  ultimately show ?thesis by (simp add: toFixed_nonneg)
qed

lemma toFixed_is_decimal:
  "\<exists>n. toFixed f x = of_int n / 10 ^ f"
proof (cases "x < 0")
  case True
  then have "toFixed f x = of_int (- \<lfloor>- x * 10 ^ f + 1 / 2\<rfloor>) / 10 ^ f"
    by (simp add: toFixed_def)
  then show ?thesis by blast
next
  case False
  then have "toFixed f x = of_int \<lfloor>x * 10 ^ f + 1 / 2\<rfloor> / 10 ^ f"
    by (simp add: toFixed_def)
  then show ?thesis by blast
qed


subsection \<open>Stepping through the days\<close>

lemma MonthFromTime_range: "0 \<le> MonthFromTime t \<and> MonthFromTime t \<le> 11"
  by (simp add: MonthFromTime_def Let_def)

lemma MakeDay_same_month:
  "MakeDay (YearFromTime t) (MonthFromTime t) (DateFromTime t + n) = Day t + n"
proof -
  have r: "0 \<le> MonthFromTime t" "MonthFromTime t < 12"
    using MonthFromTime_range [of t] by simp_all
  have d: "MonthFromTime t div 12 = 0" using r by simp
  have m: "MonthFromTime t mod 12 = MonthFromTime t" using r by simp
  have "MakeDay (YearFromTime t) (MonthFromTime t) (DateFromTime t + n) =
        DayFromYear (YearFromTime t) + DaysBeforeMonth (MonthFromTime t) (InLeapYear t) +
        (DateFromTime t + n) - 1"
    unfolding MakeDay_def Let_def d m InLeapYear_def by simp
  also have "\<dots> = Day t + n"
    unfolding DateFromTime_def DayWithinYear_def by simp
  finally show ?thesis .
qed

lemma MakeDate_Day: "MakeDate (Day t + n) (TimeWithinDay t) = t + n * msPerDay"
proof -
  have "t div msPerDay * msPerDay + t mod msPerDay = t" by simp
  then show ?thesis
    unfolding MakeDate_def Day_def TimeWithinDay_def by (simp add: distrib_right)
qed

lemma next_day_eq: "next_day z d = UTC z (LocalTime z d + msPerDay)"
  using MakeDate_Day [of "LocalTime z d" 1]
  by (simp add: next_day_def setDate_def getDate_def Let_def MakeDay_same_month)

lemma next_day_fixed: "next_day (fixed_zone c) d = d + msPerDay"
  by (simp add: next_day_eq UTC_def LocalTime_def fixed_zone_def)

lemma next_day_steady:
  assumes "steady z"
  shows "d < next_day z d"
proof -
  have "\<bar>z (LocalTime z d + msPerDay) False - z d True\<bar> < msPerDay"
    using assms unfolding steady_def by blast
  then show ?thesis
    by (simp add: next_day_eq UTC_def LocalTime_def)
qed

lemma day_at_0: "day_at z d 0 = d"
  by (simp add: day_at_def)

lemma day_at_Suc: "day_at z d (Suc i) = day_at z (next_day z d) i"
  by (simp add: day_at_def funpow_swap1)

lemma energy_at_Suc: "energy_at m e (Suc i) = energy_at m (increase m e) i"
  by (simp add: energy_at_def funpow_swap1)

lemma record_at_Suc:
  "record_at h m d e k c (Suc i) = record_at h m (next_day (LocalTZA h) d) (increase m e) (k + 4) (c + 1) i"
  by (simp add: record_at_def day_at_Suc energy_at_Suc add.assoc)

lemma record_at_0: "record_at h m d e k c 0 = prepare h d e k c"
  by (simp add: record_at_def day_at_def energy_at_def)

lemma map_record_at_Suc:
  "map (record_at h m d e k c) [0..<Suc n] =
     prepare h d e k c # map (record_at h m (next_day (LocalTZA h) d) (increase m e) (k + 4) (c + 1)) [0..<n]"
proof -
  have "[0..<Suc n] = 0 # map Suc [0..<n]"
    by (simp add: upt_conv_Cons map_Suc_upt del: upt_Suc)
  then show ?thesis
    by (simp add: record_at_0 record_at_Suc comp_def del: upt_Suc)
qed

lemma days_loop_unroll:
  assumes "\<forall>i<n. day_at (LocalTZA h) d i \<le> today" and "today < day_at (LocalTZA h) d n"
  shows "days_loop h m today d e k c acc = Some (acc @ map (record_at h m d e k c) [0..<n])"
  using assms
proof (induction n arbitrary: d e k c acc)
  case 0
  then show ?case by (subst days_loop.simps) (simp add: day_at_0)
next
  case (Suc n)
  from Suc.prems(1) have d: "d \<le> today" using day_at_0 by force
  have a: "\<forall>i<n. day_at (LocalTZA h) (next_day (LocalTZA h) d) i \<le> today"
    using Suc.prems(1) by (auto simp: day_at_Suc [symmetric])
  have b: "today < day_at (LocalTZA h) (next_day (LocalTZA h) d) n"
    using Suc.prems(2) by (simp add: day_at_Suc)
  have "days_loop h m today d e k c acc =
          days_loop h m today (next_day (LocalTZA h) d) (increase m e) (k + 4) (c + 1)
            (acc @ [prepare h d e k c])"
    using d by (subst days_loop.simps) simp
  also have "\<dots> = Some ((acc @ [prepare h d e k c]) @
        map (record_at h m (next_day (LocalTZA h) d) (increase m e) (k + 4) (c + 1)) [0..<n])"
    by (rule Suc.IH [OF a b])
  finally show ?case
    by (simp only: map_record_at_Suc append_assoc append_Cons append_Nil)
qed

lemma unrolled_stop:
  assumes "\<not> d \<le> today"
  shows "unrolled h m today d e k c acc acc"
proof -
  have "today < day_at (LocalTZA h) d 0" using assms by (simp add: day_at_0)
  then have "(\<forall>i<0. day_at (LocalTZA h) d i \<le> today) \<and> today < day_at (LocalTZA h) d 0 \<and>
          acc = acc @ map (record_at h m d e k c) [0..<0]" by simp
  then show ?thesis unfolding unrolled_def by (rule exI)
qed

lemma unrolled_step:
  assumes d: "d \<le> today"
    and u: "unrolled h m today (next_day (LocalTZA h) d) (increase m e) (k + 4) (c + 1)
              (acc @ [prepare h d e k c]) recs"
  shows "unrolled h m today d e k c acc recs"
proof -
  from u obtain n where
    n: "\<forall>i<n. day_at (LocalTZA h) (next_day (LocalTZA h) d) i \<le> today"
       "today < day_at (LocalTZA h) (next_day (LocalTZA h) d) n"
       "recs = (acc @ [prepare h d e k c]) @
          map (record_at h m (next_day (LocalTZA h) d) (increase m e) (k + 4) (c + 1)) [0..<n]"
    unfolding unrolled_def by blast
  have 1: "\<forall>i<Suc n. day_at (LocalTZA h) d i \<le> today"
  proof (intro allI impI)
    fix i assume "i < Suc n"
    then show "day_at (LocalTZA h) d i \<le> today"
      using d n(1) by (cases i) (simp_all add: day_at_0 day_at_Suc)
  qed
  have 2: "today < day_at (LocalTZA h) d (Suc n)"
    using n(2) by (simp add: day_at_Suc)
  have 3: "recs = acc @ map (record_at h m d e k c) [0..<Suc n]"
    using n(3) by (simp only: map_record_at_Suc append_assoc append_Cons append_Nil)
  from 1 2 3 show ?thesis unfolding unrolled_def by blast
qed

lemma days_loop_Some:
  assumes "days_loop h m today d e k c acc = Some recs"
  shows "unrolled h m today d e k c acc recs"
proof (rule days_loop.raw_induct [where P = unrolled, OF _ assms])
  fix loop h m today d e k c acc recs
  assume IH: "\<And>m today d e k c acc h recs.
      loop m today d e k c acc h = Some recs \<Longrightarrow> unrolled m today d e k c acc h recs"
  assume eq: "(if d \<le> today
      then loop h m today (next_day (LocalTZA h) d) (increase m e) (k + 4) (c + 1)
             (acc @ [prepare h d e k c])
      else Some acc) = Some recs"
  show "unrolled h m today d e k c acc recs"
  proof (cases "d \<le> today")
    case False
    with eq have "recs = acc" by simp
    with unrolled_stop [OF False] show ?thesis by simp
  next
    case True
    with eq have "loop h m today (next_day (LocalTZA h) d) (increase m e) (k + 4) (c + 1)
        (acc @ [prepare h d e k c]) = Some recs" by simp
    then have "unrolled h m today (next_day (LocalTZA h) d) (increase m e) (k + 4) (c + 1)
        (acc @ [prepare h d e k c]) recs" by (rule IH)
    with True show ?thesis by (rule unrolled_step)
  qed
qed

lemma day_at_steady:
  assumes "steady z"
  shows "d + int i \<le> day_at z d i"
proof (induction i arbitrary: d)
  case 0
  then show ?case by (simp add: day_at_0)
next
  case (Suc i)
  have "d + 1 \<le> next_day z d" using next_day_steady [OF assms, of d] by simp
  moreover have "next_day z d + int i \<le> day_at z (next_day z d) i" by (rule Suc.IH)
  ultimately show ?case by (simp add: day_at_Suc)
qed

lemma days_loop_total:
  assumes "steady (LocalTZA h)"
  shows "\<exists>n. days_loop h m today d e k c acc = Some (acc @ map (record_at h m d e k c) [0..<n])"
proof -
  let ?P = "\<lambda>n. today < day_at (LocalTZA h) d n"
  have "?P (nat (today - d + 1))"
    using day_at_steady [OF assms, of d "nat (today - d + 1)"] by linarith
  then have l: "?P (LEAST n. ?P n)" by (rule LeastI)
  have "\<forall>i<(LEAST n. ?P n). day_at (LocalTZA h) d i \<le> today"
    using not_less_Least [of _ ?P] by (auto simp: not_less)
  from days_loop_unroll [OF this l] show ?thesis by blast
qed

subsection \<open>The energy column\<close>

lemma toFixed_decimal: "toFixed f (of_int n / 10 ^ f) = of_int n / 10 ^ f"
proof (cases "0 \<le> n")
  case True
  then show ?thesis by (rule toFixed_of_int)
next
  case False
  then have neg: "(of_int n :: rat) / 10 ^ f < 0" by (simp add: divide_neg_pos)
  have "\<lfloor>(of_int (- n) :: rat) + 1 / 2\<rfloor> = - n" by (simp add: floor_unique)
  then have "\<lfloor>- (of_int n :: rat) + 1 / 2\<rfloor> = - n" by simp
  with neg show ?thesis by (simp add: toFixed_def)
qed

lemma toFixed_idem: "toFixed f (toFixed f x) = toFixed f x"
proof -
  obtain n where "toFixed f x = of_int n / 10 ^ f" using toFixed_is_decimal by blast
  then show ?thesis by (simp add: toFixed_decimal)
qed

lemma toFixed3_decimal: "toFixed 3 (of_int n / 1000) = of_int n / 1000"
  using toFixed_decimal [of 3 n] by simp

lemma toFixed3_is_decimal: "\<exists>n. toFixed 3 x = of_int n / 1000"
  using toFixed_is_decimal [of 3 x] by simp

lemma nth_map_upt0: "i < n \<Longrightarrow> map f [0..<n] ! i = f i"
  by simp

lemma increase_decimal:
  "increase m (of_int n / 1000) = of_int (n + (if m = Num 1 then 3 else 500)) / 1000"
proof -
  have "parseFloat (of_int n / 1000) + (if m = Num 1 then 3 / 1000 else 1 / 2)
        = (of_int (n + (if m = Num 1 then 3 else 500)) :: rat) / 1000"
    by (simp add: parseFloat_def add_divide_distrib)
  then show ?thesis unfolding increase_def by (simp only: toFixed3_decimal)
qed

lemma energy_at_decimal:
  "energy_at m (of_int n / 1000) i = of_int (n + int i * (if m = Num 1 then 3 else 500)) / 1000"
proof (induction i arbitrary: n)
  case 0
  then show ?case by (simp add: energy_at_def)
next
  case (Suc i)
  have "energy_at m (of_int n / 1000) (Suc i) =
        energy_at m (of_int (n + (if m = Num 1 then 3 else 500)) / 1000) i"
    by (simp only: energy_at_Suc increase_decimal)
  also have "\<dots> = of_int (n + (if m = Num 1 then 3 else 500) + int i * (if m = Num 1 then 3 else 500)) / 1000"
    by (rule Suc.IH)
  finally show ?case by (simp add: algebra_simps)
qed

lemma energy_prepare: "energy (prepare h d e k c) = toFixed 3 e"
  by (simp add: prepare_def spread_def generateRandomData_def Let_def parseFloat_def)

lemma energy_record_at:
  "energy (record_at h m d (of_int n / 1000) k c i) =
     of_int (n + int i * (if m = Num 1 then 3 else 500)) / 1000"
  unfolding record_at_def energy_prepare energy_at_decimal by (rule toFixed3_decimal)

lemma initialEnergy_decimal: "\<exists>n. initialEnergy h m = of_int n / 1000"
  unfolding initialEnergy_def using toFixed3_is_decimal by (cases "m = Num 1") presburger+

subsection \<open>What \<open>generateData\<close> returns\<close>

lemma generateData_Some:
  assumes "generateData h m = Some recs"
  shows "unrolled h m (now h 0) (twoMonthsAgo h) (initialEnergy h m) 1 2 [] recs"
  using assms unfolding generateData_def by (rule days_loop_Some)

lemma generateData_records:
  assumes "generateData h m = Some recs"
  obtains n where "recs = map (record_at h m (twoMonthsAgo h) (initialEnergy h m) 1 2) [0..<n]"
  using generateData_Some [OF assms] unfolding unrolled_def by auto

lemma generateData_total:
  assumes "steady (LocalTZA h)"
  shows "\<exists>recs. generateData h m = Some recs"
  using days_loop_total [OF assms] unfolding generateData_def by blast

lemma generateData_first:
  assumes le: "twoMonthsAgo h \<le> now h 0" and gen: "generateData h m = Some recs"
  shows "\<exists>rest. recs = prepare h (twoMonthsAgo h) (initialEnergy h m) 1 2 # rest"
proof -
  from generateData_Some [OF gen] obtain n where
    n: "now h 0 < day_at (LocalTZA h) (twoMonthsAgo h) n"
       "recs = map (record_at h m (twoMonthsAgo h) (initialEnergy h m) 1 2) [0..<n]"
    unfolding unrolled_def by auto
  have "n \<noteq> 0"
  proof
    assume "n = 0"
    with n(1) have "now h 0 < twoMonthsAgo h" by (simp add: day_at_0)
    with le show False by simp
  qed
  then obtain n' where "n = Suc n'" by (cases n) auto
  with n(2) show ?thesis by (simp only: map_record_at_Suc) blast
qed

lemma steady_fixed_zone: "steady (fixed_zone c)"
  by (simp add: steady_def fixed_zone_def msPerDay_def)

lemma example_host_start: "twoMonthsAgo example_host \<le> now example_host 0"
  by code_simp

lemma example_host_unit: "unit_interval (random example_host)"
  by (simp add: unit_interval_def example_host_def)

lemma example_host_steady: "steady (LocalTZA example_host)"
  by (simp add: example_host_def steady_fixed_zone)

lemma day_at_fixed: "day_at (fixed_zone c) d i = d + int i * msPerDay"
proof (induction i arbitrary: d)
  case 0
  then show ?case by (simp add: day_at_0)
next
  case (Suc i)
  then show ?case by (simp add: day_at_Suc next_day_fixed algebra_simps)
qed

lemma days_covered_bounds:
  "(\<forall>i<days_covered h. twoMonthsAgo h + int i * msPerDay \<le> now h 0) \<and>
   now h 0 < twoMonthsAgo h + int (days_covered h) * msPerDay"
proof (cases "twoMonthsAgo h \<le> now h 0")
  case False
  then show ?thesis by (simp add: days_covered_def)
next
  case True
  define x where "x = now h 0 - twoMonthsAgo h"
  define q where "q = x div msPerDay"
  have x: "0 \<le> x" using True by (simp add: x_def)
  have p: "0 < msPerDay" by (simp add: msPerDay_def)
  have q: "0 \<le> q" using x p by (simp add: q_def pos_imp_zdiv_nonneg_iff)
  have dm: "x = q * msPerDay + x mod msPerDay" by (simp add: q_def)
  have m0: "0 \<le> x mod msPerDay" and m1: "x mod msPerDay < msPerDay" using p by simp_all
  have lo: "q * msPerDay \<le> x" using dm m0 by linarith
  have "(q + 1) * msPerDay = q * msPerDay + msPerDay" by (simp add: distrib_right)
  then have hi: "x < (q + 1) * msPerDay" using dm m1 by linarith
  have n: "days_covered h = nat q + 1"
    using True by (simp add: days_covered_def q_def x_def)
  have "twoMonthsAgo h + int i * msPerDay \<le> now h 0" if "i < days_covered h" for i
  proof -
    from that n q have "int i \<le> q" by simp
    then have "int i * msPerDay \<le> q * msPerDay" using p by (simp add: mult_right_mono)
    with lo show ?thesis by (simp add: x_def)
  qed
  moreover have "now h 0 < twoMonthsAgo h + int (days_covered h) * msPerDay"
  proof -
    have "int (days_covered h) = q + 1" using n q by simp
    with hi show ?thesis by (simp add: x_def)
  qed
  ultimately show ?thesis by blast
qed

lemma generateData_fixed:
  assumes "LocalTZA h = fixed_zone c"
  shows "generateData h m =
     Some (map (record_at h m (twoMonthsAgo h) (initialEnergy h m) 1 2) [0..<days_covered h])"
proof -
  have "days_loop h m (now h 0) (twoMonthsAgo h) (initialEnergy h m) 1 2 [] =
      Some ([] @ map (record_at h m (twoMonthsAgo h) (initialEnergy h m) 1 2) [0..<days_covered h])"
    using days_covered_bounds [of h]
    by (intro days_loop_unroll) (simp_all add: assms day_at_fixed)
  then show ?thesis by (simp add: generateData_def)
qed

lemma example_host_days: "days_covered example_host = 62"
  by code_simp

lemma example_host_run:
  "generateData example_host m =
     Some (map (record_at example_host m (twoMonthsAgo example_host)
                  (initialEnergy example_host m) 1 2) [0..<62])"
  using generateData_fixed [of example_host 19800000 m]
  by (simp add: example_host_days) (simp add: example_host_def)

subsection \<open>Claims about the generated records\<close>

text \<open>
  C3. In every generated sequence the energy of each record exceeds the energy of the
  record before it by exactly the step of the mode, 0.003 when the mode is 1 (normal)
  and 0.5 otherwise (greater, the mode 2); so the column is non-decreasing. Every value
  is a decimal with three fraction digits: rounding it to three decimals leaves it
  unchanged.
\<close>

theorem energy_steps:
  assumes "generateData h energyType = Some recs" and "Suc i < length recs"
  shows "energy (recs ! Suc i) - energy (recs ! i) = (if energyType = Num 1 then 3 / 1000 else 1 / 2)
       \<and> energy (recs ! i) \<le> energy (recs ! Suc i)
       \<and> toFixed 3 (energy (recs ! i)) = energy (recs ! i)
       \<and> toFixed 3 (energy (recs ! Suc i)) = energy (recs ! Suc i)"
proof -
  obtain e0 where e0: "initialEnergy h energyType = of_int e0 / 1000"
    using initialEnergy_decimal by blast
  from assms(1) obtain n where
    recs: "recs = map (record_at h energyType (twoMonthsAgo h) (of_int e0 / 1000) 1 2) [0..<n]"
    unfolding e0 [symmetric] by (rule generateData_records)
  from assms(2) recs have i: "Suc i < n" "i < n" by simp_all
  have a: "energy (recs ! i) = of_int (e0 + int i * (if energyType = Num 1 then 3 else 500)) / 1000"
    using i(2) by (simp only: recs nth_map_upt0 energy_record_at)
  have b: "energy (recs ! Suc i) =
      of_int (e0 + int (Suc i) * (if energyType = Num 1 then 3 else 500)) / 1000"
    using i(1) by (simp only: recs nth_map_upt0 energy_record_at)
  have d: "energy (recs ! Suc i) - energy (recs ! i) = (if energyType = Num 1 then 3 / 1000 else 1 / 2)"
    unfolding a b by (simp add: diff_divide_distrib [symmetric] algebra_simps)
  then have "energy (recs ! i) \<le> energy (recs ! Suc i)" by (simp split: if_splits)
  moreover have "toFixed 3 (energy (recs ! i)) = energy (recs ! i)"
    unfolding a by (rule toFixed3_decimal)
  moreover have "toFixed 3 (energy (recs ! Suc i)) = energy (recs ! Suc i)"
    unfolding b by (rule toFixed3_decimal)
  ultimately show ?thesis using d by simp
qed


theorem energy_steps_witness:
  "generateData example_host (Num 1) \<noteq> None \<and>
   Suc 0 < length (the (generateData example_host (Num 1))) \<and>
   energy (the (generateData example_host (Num 1)) ! Suc 0) -
     energy (the (generateData example_host (Num 1)) ! 0) = 3 / 1000 \<and>
   energy (the (generateData example_host (Num 1)) ! 0) \<le>
     energy (the (generateData example_host (Num 1)) ! Suc 0)"
proof -
  obtain recs where run: "generateData example_host (Num 1) = Some recs"
    and len: "length recs = 62"
    using example_host_run [of "Num 1"] by simp
  from len have "Suc 0 < length recs" by simp
  from energy_steps [OF run this] show ?thesis by (simp add: run len)
qed

subsection \<open>The random fields\<close>

lemma toFixed_range:
  assumes "of_int a / 10 ^ f \<le> x" and "x < of_int b / 10 ^ f" and "0 \<le> x"
  shows "of_int a / 10 ^ f \<le> toFixed f x \<and> toFixed f x \<le> of_int b / 10 ^ f"
  using assms by (intro toFixed_bounds) simp_all

lemma voltage_range:
  assumes "0 \<le> r" and "r < 1"
  shows "225 \<le> toFixed 1 (r * (245 - 225) + 225) \<and> toFixed 1 (r * (245 - 225) + 225) \<le> 245"
  using assms toFixed_range [of 2250 1 "r * (245 - 225) + 225" 2450] by simp

lemma pf_range:
  assumes "0 \<le> r" and "r < 1"
  shows "8 / 10 \<le> toFixed 2 (r * (1 / 10) + 8 / 10) \<and> toFixed 2 (r * (1 / 10) + 8 / 10) \<le> 9 / 10"
  using assms toFixed_range [of 80 2 "r * (1 / 10) + 8 / 10" 90] by simp

lemma current_range:
  assumes "0 \<le> r" and "r < 1"
  shows "1 / 100 \<le> toFixed 3 (r * (1 - 1 / 100) + 1 / 100) \<and>
         toFixed 3 (r * (1 - 1 / 100) + 1 / 100) \<le> 1"
  using assms toFixed_range [of 10 3 "r * (1 - 1 / 100) + 1 / 100" 1000] by simp

lemma frequency_range:
  assumes "0 \<le> r" and "r < 1"
  shows "498 / 10 \<le> toFixed 1 (r * (1 / 10) + 498 / 10) \<and>
         toFixed 1 (r * (1 / 10) + 498 / 10) \<le> 499 / 10"
  using assms toFixed_range [of 498 1 "r * (1 / 10) + 498 / 10" 499] by simp

lemma generateRandomData_ranges:
  assumes "unit_interval rnd"
  shows "225 \<le> voltage (generateRandomData rnd mul k e) \<and>
         voltage (generateRandomData rnd mul k e) \<le> 245 \<and>
         1 / 100 \<le> current (generateRandomData rnd mul k e) \<and>
         current (generateRandomData rnd mul k e) \<le> 1 \<and>
         8 / 10 \<le> pf (generateRandomData rnd mul k e) \<and>
         pf (generateRandomData rnd mul k e) \<le> 9 / 10 \<and>
         498 / 10 \<le> frequency (generateRandomData rnd mul k e) \<and>
         frequency (generateRandomData rnd mul k e) \<le> 499 / 10"
proof -
  have r: "0 \<le> rnd i" "rnd i < 1" for i
    using assms by (simp_all add: unit_interval_def)
  show ?thesis
    using voltage_range [OF r, of k] pf_range [OF r, of "k + 1"]
      current_range [OF r, of "k + 2"] frequency_range [OF r, of "k + 3"]
    by (simp only: generateRandomData_def Let_def parseFloat_def reading.simps)
qed

lemma prepare_reading:
  "voltage (prepare h d e k c) = voltage (generateRandomData (random h) (multiply h) k (parseFloat e))"
  "current (prepare h d e k c) = current (generateRandomData (random h) (multiply h) k (parseFloat e))"
  "pf (prepare h d e k c) = pf (generateRandomData (random h) (multiply h) k (parseFloat e))"
  "frequency (prepare h d e k c) = frequency (generateRandomData (random h) (multiply h) k (parseFloat e))"
  "power_w (prepare h d e k c) = power_w (generateRandomData (random h) (multiply h) k (parseFloat e))"
  by (simp_all add: prepare_def spread_def Let_def)

lemma generateData_member:
  assumes "generateData h m = Some recs" and "r \<in> set recs"
  shows "\<exists>d e k c. r = prepare h d e k c"
proof -
  from assms(1) obtain n where
    "recs = map (record_at h m (twoMonthsAgo h) (initialEnergy h m) 1 2) [0..<n]"
    by (rule generateData_records)
  with assms(2) obtain i where "r = record_at h m (twoMonthsAgo h) (initialEnergy h m) 1 2 i"
    by auto
  then show ?thesis unfolding record_at_def by blast
qed

lemma example_host_first:
  "\<exists>rest. the (generateData example_host m) =
     prepare example_host (twoMonthsAgo example_host) (initialEnergy example_host m) 1 2 # rest"
  using generateData_first [OF example_host_start, of m] example_host_run [of m] by simp

lemma initialEnergy_normal:
  assumes "0 \<le> r" and "r < 1"
  shows "1 / 2 \<le> toFixed 3 (r * (1 - 1 / 2) + 1 / 2) \<and> toFixed 3 (r * (1 - 1 / 2) + 1 / 2) \<le> 1"
  using assms toFixed_range [of 500 3 "r * (1 - 1 / 2) + 1 / 2" 1000] by simp

lemma initialEnergy_greater:
  assumes "0 \<le> r" and "r < 1"
  shows "150 \<le> toFixed 3 (r * (250 - 150) + 150) \<and> toFixed 3 (r * (250 - 150) + 150) \<le> 250"
  using assms toFixed_range [of 150000 3 "r * (250 - 150) + 150" 250000] by simp

lemma generateData_head_energy:
  assumes "generateData h m = Some (r # recs)"
  shows "energy r = initialEnergy h m"
proof -
  from assms obtain n where
    n: "r # recs = map (record_at h m (twoMonthsAgo h) (initialEnergy h m) 1 2) [0..<n]"
    by (rule generateData_records)
  have "n \<noteq> 0"
  proof
    assume "n = 0"
    with n show False by simp
  qed
  then obtain n' where "n = Suc n'" by (cases n) auto
  with n have "r = prepare h (twoMonthsAgo h) (initialEnergy h m) 1 2"
    by (simp only: map_record_at_Suc list.inject)
  moreover obtain e0 where "initialEnergy h m = of_int e0 / 1000"
    using initialEnergy_decimal by blast
  ultimately show ?thesis by (simp only: energy_prepare toFixed3_decimal)
qed

text \<open>
  C4. When \<open>Math.random()\<close> returns numbers from 0 up to, but not including, 1, every
  record of a run has its voltage between 225.0 and 245.0, its current between 0.01 and
  1.0, its power factor between 0.8 and 0.9 and its frequency between 49.8 and 49.9, the
  bounds included.
\<close>

theorem fields_in_range:
  assumes "generateData h energyType = Some recs"
    and "unit_interval (random h)"
    and "r \<in> set recs"
  shows "225 \<le> voltage r \<and> voltage r \<le> 245 \<and>
         1 / 100 \<le> current r \<and> current r \<le> 1 \<and>
         8 / 10 \<le> pf r \<and> pf r \<le> 9 / 10 \<and>
         498 / 10 \<le> frequency r \<and> frequency r \<le> 499 / 10"
proof -
  from generateData_member [OF assms(1,3)] obtain d e k c where "r = prepare h d e k c"
    by blast
  then show ?thesis
    using generateRandomData_ranges [OF assms(2), of "multiply h" k "parseFloat e"]
    by (simp only: prepare_reading)
qed

theorem fields_in_range_witness:
  "generateData example_host (Num 2) \<noteq> None \<and>
   unit_interval (random example_host) \<and>
   hd (the (generateData example_host (Num 2))) \<in> set (the (generateData example_host (Num 2))) \<and>
   225 \<le> voltage (hd (the (generateData example_host (Num 2)))) \<and>
   voltage (hd (the (generateData example_host (Num 2)))) \<le> 245 \<and>
   1 / 100 \<le> current (hd (the (generateData example_host (Num 2)))) \<and>
   current (hd (the (generateData example_host (Num 2)))) \<le> 1 \<and>
   8 / 10 \<le> pf (hd (the (generateData example_host (Num 2)))) \<and>
   pf (hd (the (generateData example_host (Num 2)))) \<le> 9 / 10 \<and>
   498 / 10 \<le> frequency (hd (the (generateData example_host (Num 2)))) \<and>
   frequency (hd (the (generateData example_host (Num 2)))) \<le> 499 / 10"
proof -
  obtain recs where run: "generateData example_host (Num 2) = Some recs"
    using example_host_run [of "Num 2"] by simp
  obtain rest where "recs = hd recs # rest"
    using example_host_first [of "Num 2"] by (auto simp: run)
  then have mem: "hd recs \<in> set recs" by (metis list.set_intros(1))
  from fields_in_range [OF run example_host_unit mem] mem example_host_unit
  show ?thesis by (simp add: run)
qed

subsection \<open>The power\<close>

lemma toFixed_error: "\<bar>toFixed f x - x\<bar> \<le> 1 / (2 * 10 ^ f)"
proof -
  have near: "\<bar>of_int \<lfloor>y + 1 / 2\<rfloor> - y\<bar> \<le> 1 / 2" for y :: rat
  proof -
    have "of_int \<lfloor>y + 1 / 2\<rfloor> \<le> y + 1 / 2" by (rule of_int_floor_le)
    moreover have "y + 1 / 2 < of_int \<lfloor>y + 1 / 2\<rfloor> + 1"
      by (rule floor_correct [THEN conjunct2, simplified])
    ultimately show ?thesis by linarith
  qed
  have scale: "\<bar>n / 10 ^ f - y / 10 ^ f\<bar> \<le> 1 / (2 * 10 ^ f)" if "\<bar>n - y\<bar> \<le> 1 / 2" for n y :: rat
  proof -
    have "\<bar>n / 10 ^ f - y / 10 ^ f\<bar> = \<bar>n - y\<bar> / 10 ^ f"
      by (simp add: diff_divide_distrib [symmetric])
    also have "\<dots> \<le> (1 / 2) / 10 ^ f" using that by (intro divide_right_mono) simp_all
    finally show ?thesis by simp
  qed
  show ?thesis
  proof (cases "x < 0")
    case False
    have "\<bar>of_int \<lfloor>x * 10 ^ f + 1 / 2\<rfloor> / 10 ^ f - (x * 10 ^ f) / 10 ^ f\<bar> \<le> 1 / (2 * 10 ^ f)"
      by (rule scale) (rule near)
    with False show ?thesis by (simp add: toFixed_def)
  next
    case True
    have "\<bar>of_int \<lfloor>- x * 10 ^ f + 1 / 2\<rfloor> / 10 ^ f - (- x * 10 ^ f) / 10 ^ f\<bar> \<le> 1 / (2 * 10 ^ f)"
      by (rule scale) (rule near)
    with True show ?thesis by (simp add: toFixed_def abs_le_iff)
  qed
qed

text \<open>
  Rounding to two decimals a number within half a millionth of a whole number of
  millionths gives a number within 0.005 of the latter.
\<close>

lemma toFixed2_robust:
  fixes m :: int and p :: rat
  assumes "\<bar>p - of_int m / 1000000\<bar> < 1 / 2000000"
  shows "\<bar>toFixed 2 p - of_int m / 1000000\<bar> \<le> 1 / 200"
proof -
  obtain k where k: "toFixed 2 p = of_int k / 10 ^ 2" using toFixed_is_decimal by blast
  have "\<bar>toFixed 2 p - p\<bar> \<le> 1 / 200" using toFixed_error [of 2 p] by simp
  with assms have "\<bar>toFixed 2 p - of_int m / 1000000\<bar> < 1 / 200 + 1 / 2000000" by linarith
  then have "\<bar>(of_int (10000 * k - m) :: rat) / 1000000\<bar> < 10001 / 2000000"
    by (simp add: k diff_divide_distrib)
  then have "\<bar>(of_int (10000 * k - m) :: rat)\<bar> < 10001 / 2" by simp
  then have "(of_int \<bar>10000 * k - m\<bar> :: rat) < 10001 / 2" by simp
  then have "\<bar>10000 * k - m\<bar> \<le> 5000" by linarith
  then have "(of_int \<bar>10000 * k - m\<bar> :: rat) \<le> of_int 5000" by (simp only: of_int_le_iff)
  then have "\<bar>(of_int (10000 * k - m) :: rat) / 1000000\<bar> \<le> 1 / 200" by simp
  then show ?thesis by (simp add: k diff_divide_distrib)
qed

lemma product_on_grid:
  "\<exists>m. toFixed 1 x * toFixed 3 y * toFixed 2 z = of_int m / 1000000"
proof -
  obtain a where a: "toFixed 1 x = of_int a / 10 ^ 1" using toFixed_is_decimal by blast
  obtain b where b: "toFixed 3 y = of_int b / 10 ^ 3" using toFixed_is_decimal by blast
  obtain c where c: "toFixed 2 z = of_int c / 10 ^ 2" using toFixed_is_decimal by blast
  have "toFixed 1 x * toFixed 3 y * toFixed 2 z = of_int (a * b * c) / 1000000"
    unfolding a b c by simp
  then show ?thesis by blast
qed

lemma accurate_product:
  assumes acc: "accurate mul"
    and v: "0 \<le> v" "v \<le> 245" and c: "0 \<le> c" "c \<le> 1" and p: "0 \<le> p" "p \<le> 1"
  shows "\<bar>mul (mul v c) p - v * c * p\<bar> < 1 / 2000000"
proof -
  define m where "m = mul v c"
  have vc0: "0 \<le> v * c" using v c by simp
  have "v * c \<le> 245 * 1" using v c by (intro mult_mono) simp_all
  then have vc1: "v * c \<le> 245" by simp
  from vc0 vc1 have "\<bar>v * c\<bar> \<le> 1000" by simp
  with acc have e1: "\<bar>m - v * c\<bar> \<le> 1 / 1000000000" by (simp add: accurate_def m_def)
  with vc0 vc1 have m: "\<bar>m\<bar> \<le> 246" by linarith
  have "\<bar>m * p\<bar> = \<bar>m\<bar> * p" using p by (simp add: abs_mult)
  also have "\<dots> \<le> 246 * 1" using m p by (intro mult_mono) simp_all
  finally have "\<bar>m * p\<bar> \<le> 1000" by simp
  with acc have e2: "\<bar>mul m p - m * p\<bar> \<le> 1 / 1000000000" by (simp add: accurate_def)
  have "\<bar>m * p - v * c * p\<bar> = \<bar>m - v * c\<bar> * p"
    using p by (simp add: abs_mult left_diff_distrib [symmetric])
  also have "\<dots> \<le> 1 / 1000000000 * 1" using e1 p by (intro mult_mono) simp_all
  finally have e3: "\<bar>m * p - v * c * p\<bar> \<le> 1 / 1000000000" by simp
  from e2 e3 show ?thesis unfolding m_def by linarith
qed

lemma power_prepare:
  "power_w (prepare h d e k c) =
     toFixed 2 (multiply h (multiply h (voltage (prepare h d e k c)) (current (prepare h d e k c)))
                  (pf (prepare h d e k c)))"
  by (simp add: prepare_reading generateRandomData_def Let_def parseFloat_def)

lemma product_prepare:
  "\<exists>m. voltage (prepare h d e k c) * current (prepare h d e k c) * pf (prepare h d e k c) =
         of_int m / 1000000"
  unfolding prepare_reading
  by (simp only: generateRandomData_def Let_def parseFloat_def reading.simps) (rule product_on_grid)

lemma tie_host_start: "twoMonthsAgo tie_host \<le> now tie_host 0"
  by code_simp

lemma tie_host_days: "days_covered tie_host = 62"
  by code_simp

lemma tie_host_run:
  "generateData tie_host m =
     Some (map (record_at tie_host m (twoMonthsAgo tie_host) (initialEnergy tie_host m) 1 2) [0..<62])"
  using generateData_fixed [of tie_host 19800000 m]
  by (simp add: tie_host_days) (simp add: tie_host_def example_host_def)

lemma tie_host_first:
  "\<exists>rest. the (generateData tie_host m) =
     prepare tie_host (twoMonthsAgo tie_host) (initialEnergy tie_host m) 1 2 # rest"
  using generateData_first [OF tie_host_start, of m] tie_host_run [of m] by simp

lemma tie_host_unit: "unit_interval (random tie_host)"
  by (simp add: unit_interval_def tie_host_def)

lemma tie_host_accurate: "accurate (multiply tie_host)"
  by (simp add: accurate_def tie_host_def)

text \<open>
  The first record of the run on \<open>tie_host\<close>: the exact product is 1.845, a tie, and the
  power is 1.84, as the script stores it.
\<close>

lemma tie_host_draws:
  "toFixed 1 (random tie_host 1 * (245 - 225) + 225) = 225"
  "toFixed 2 (random tie_host (1 + 1) * (1 / 10) + 8 / 10) = 82 / 100"
  "toFixed 3 (random tie_host (1 + 2) * (1 - 1 / 100) + 1 / 100) = 1 / 100"
  "toFixed 2 (multiply tie_host (multiply tie_host 225 (1 / 100)) (82 / 100)) = 184 / 100"
  by code_simp+

lemma tie_host_reading:
  "voltage (prepare tie_host d e 1 c) = 225"
  "current (prepare tie_host d e 1 c) = 1 / 100"
  "pf (prepare tie_host d e 1 c) = 82 / 100"
  "power_w (prepare tie_host d e 1 c) = 184 / 100"
  by (simp_all only: prepare_reading generateRandomData_def Let_def parseFloat_def reading.simps
      tie_host_draws)

lemma example_host_exact: "multiply example_host a b = a * b"
  by (simp add: example_host_def)

lemma tie_host_exact: "toFixed 2 (225 * (1 / 100) * (82 / 100)) = 185 / 100"
  by code_simp

text \<open>
  C5. The power of every record of a run is the product of that record's voltage,
  current and power factor, as the host multiplies them, rounded to two decimals. When
  \<open>Math.random()\<close> returns numbers from 0 up to, but not including, 1 and the host
  multiplies accurately, the power differs by at most 0.005 from the exact product: it
  is the exact product rounded to two decimals, except that the rounding error of the
  multiplications decides the direction where the exact product is a tie (on \<open>tie_host\<close>
  the power is 1.84, where the exact product 1.845 would round to 1.85). Where the host
  multiplies exactly, the power is the exact product rounded to two decimals, the
  larger one on a tie.
\<close>

theorem power_is_rounded_product:
  assumes "generateData h energyType = Some recs"
    and "unit_interval (random h)"
    and "accurate (multiply h)"
    and "r \<in> set recs"
  shows "power_w r = toFixed 2 (multiply h (multiply h (voltage r) (current r)) (pf r)) \<and>
         (\<exists>n. power_w r = of_int n / 100) \<and>
         \<bar>power_w r - voltage r * current r * pf r\<bar> \<le> 1 / 200 \<and>
         ((\<forall>a b. multiply h a b = a * b) \<longrightarrow>
            power_w r = toFixed 2 (voltage r * current r * pf r))"
proof -
  from generateData_member [OF assms(1,4)] obtain d e k c where r: "r = prepare h d e k c"
    by blast
  define x where "x = voltage r * current r * pf r"
  define y where "y = multiply h (multiply h (voltage r) (current r)) (pf r)"
  have pw: "power_w r = toFixed 2 y"
    unfolding y_def r by (rule power_prepare)
  obtain m where m: "x = of_int m / 1000000"
    unfolding x_def r using product_prepare by blast
  have rng: "0 \<le> voltage r" "voltage r \<le> 245" "0 \<le> current r" "current r \<le> 1"
    "0 \<le> pf r" "pf r \<le> 1"
    using generateRandomData_ranges [OF assms(2), of "multiply h" k "parseFloat e"]
    unfolding r prepare_reading by linarith+
  have "\<bar>y - x\<bar> < 1 / 2000000"
    unfolding x_def y_def by (rule accurate_product [OF assms(3) rng])
  then have 2: "\<bar>power_w r - x\<bar> \<le> 1 / 200"
    unfolding pw m by (rule toFixed2_robust)
  have 1: "\<exists>n. power_w r = of_int n / 100"
    unfolding pw using toFixed_is_decimal [of 2 y] by simp
  have 3: "power_w r = toFixed 2 x" if "\<forall>a b. multiply h a b = a * b"
    unfolding pw x_def y_def by (simp add: that)
  from pw 1 2 3 show ?thesis unfolding x_def y_def by blast
qed

theorem power_is_rounded_product_witness:
  "generateData tie_host (Num 1) \<noteq> None \<and>
   unit_interval (random tie_host) \<and>
   accurate (multiply tie_host) \<and>
   hd (the (generateData tie_host (Num 1))) \<in> set (the (generateData tie_host (Num 1))) \<and>
   voltage (hd (the (generateData tie_host (Num 1)))) *
     current (hd (the (generateData tie_host (Num 1)))) *
     pf (hd (the (generateData tie_host (Num 1)))) = 1845 / 1000 \<and>
   power_w (hd (the (generateData tie_host (Num 1)))) = 184 / 100 \<and>
   \<bar>power_w (hd (the (generateData tie_host (Num 1)))) -
      voltage (hd (the (generateData tie_host (Num 1)))) *
      current (hd (the (generateData tie_host (Num 1)))) *
      pf (hd (the (generateData tie_host (Num 1))))\<bar> \<le> 1 / 200 \<and>
   generateData example_host (Num 1) \<noteq> None \<and>
   unit_interval (random example_host) \<and>
   accurate (multiply example_host) \<and>
   (\<forall>a b. multiply example_host a b = a * b) \<and>
   hd (the (generateData example_host (Num 1))) \<in> set (the (generateData example_host (Num 1))) \<and>
   power_w (hd (the (generateData example_host (Num 1)))) =
     toFixed 2 (voltage (hd (the (generateData example_host (Num 1)))) *
                current (hd (the (generateData example_host (Num 1)))) *
                pf (hd (the (generateData example_host (Num 1)))))"
proof -
  obtain recs where run: "generateData tie_host (Num 1) = Some recs"
    using tie_host_run [of "Num 1"] by simp
  obtain rest where hd: "recs = prepare tie_host (twoMonthsAgo tie_host)
      (initialEnergy tie_host (Num 1)) 1 2 # rest"
    using tie_host_first [of "Num 1"] by (auto simp: run)
  then have mem: "hd recs \<in> set recs" by simp
  have vals: "voltage (hd recs) * current (hd recs) * pf (hd recs) = 1845 / 1000"
    "power_w (hd recs) = 184 / 100"
    unfolding hd list.sel tie_host_reading by simp_all
  obtain recs' where run': "generateData example_host (Num 1) = Some recs'"
    using example_host_run [of "Num 1"] by simp
  obtain rest' where "recs' = hd recs' # rest'"
    using example_host_first [of "Num 1"] by (auto simp: run')
  then have mem': "hd recs' \<in> set recs'" by (metis list.set_intros(1))
  have acc': "accurate (multiply example_host)"
    by (simp add: accurate_def example_host_exact)
  from power_is_rounded_product [OF run tie_host_unit tie_host_accurate mem]
  have a: "\<bar>power_w (hd recs) - voltage (hd recs) * current (hd recs) * pf (hd recs)\<bar> \<le> 1 / 200"
    by blast
  from power_is_rounded_product [OF run' example_host_unit acc' mem'] example_host_exact
  have b: "power_w (hd recs') = toFixed 2 (voltage (hd recs') * current (hd recs') * pf (hd recs'))"
    by blast
  from a b mem mem' vals tie_host_unit tie_host_accurate example_host_unit acc' example_host_exact
  show ?thesis by (simp only: run run' option.sel) simp
qed

text \<open>
  C6. When \<open>Math.random()\<close> returns numbers from 0 up to, but not including, 1, the
  starting energy lies between 0.5 and 1.0 when the mode is 1 (normal) and between 150.0
  and 250.0 otherwise (greater, the mode 2); it is a decimal with three fraction digits;
  and it is the energy of the first record of every run that returns one.
\<close>

theorem initialEnergy_range:
  assumes "unit_interval (random h)"
  shows "(if energyType = Num 1
          then 1 / 2 \<le> initialEnergy h energyType \<and> initialEnergy h energyType \<le> 1
          else 150 \<le> initialEnergy h energyType \<and> initialEnergy h energyType \<le> 250) \<and>
         toFixed 3 (initialEnergy h energyType) = initialEnergy h energyType \<and>
         (\<forall>r recs. generateData h energyType = Some (r # recs) \<longrightarrow>
            energy r = initialEnergy h energyType)"
proof -
  have r: "0 \<le> random h 0" "random h 0 < 1"
    using assms by (simp_all add: unit_interval_def)
  have "if energyType = Num 1
        then 1 / 2 \<le> initialEnergy h energyType \<and> initialEnergy h energyType \<le> 1
        else 150 \<le> initialEnergy h energyType \<and> initialEnergy h energyType \<le> 250"
    using initialEnergy_normal [OF r] initialEnergy_greater [OF r]
    by (simp only: initialEnergy_def split: if_split) simp
  moreover have "toFixed 3 (initialEnergy h energyType) = initialEnergy h energyType"
  proof -
    obtain e0 where e0: "initialEnergy h energyType = of_int e0 / 1000"
      using initialEnergy_decimal by blast
    show ?thesis by (simp only: e0 toFixed3_decimal)
  qed
  ultimately show ?thesis using generateData_head_energy by blast
qed

theorem initialEnergy_range_witness:
  "unit_interval (random example_host) \<and>
   1 / 2 \<le> initialEnergy example_host (Num 1) \<and> initialEnergy example_host (Num 1) \<le> 1 \<and>
   150 \<le> initialEnergy example_host (Num 2) \<and> initialEnergy example_host (Num 2) \<le> 250 \<and>
   generateData example_host (Num 2) \<noteq> None \<and>
   the (generateData example_host (Num 2)) \<noteq> [] \<and>
   energy (hd (the (generateData example_host (Num 2)))) = initialEnergy example_host (Num 2)"
proof -
  obtain recs where run: "generateData example_host (Num 2) = Some recs"
    using example_host_run [of "Num 2"] by simp
  obtain rest where recs: "recs = hd recs # rest"
    using example_host_first [of "Num 2"] by (auto simp: run)
  then have ne: "recs \<noteq> []" by auto
  from run recs have "generateData example_host (Num 2) = Some (hd recs # rest)" by simp
  with initialEnergy_range [OF example_host_unit, of "Num 2"]
  have "energy (hd recs) = initialEnergy example_host (Num 2)" by blast
  with initialEnergy_range [OF example_host_unit, of "Num 1"]
    initialEnergy_range [OF example_host_unit, of "Num 2"] example_host_unit ne
  show ?thesis by (simp add: run)
qed

subsection \<open>The time of day\<close>

lemma div_mod_shift:
  fixes t k a b :: int
  assumes "0 < a"
  shows "((t + k * b * a) div a) mod b = (t div a) mod b"
proof -
  have "(t + k * b * a) div a = k * b + t div a"
    using assms by (simp only: div_mult_self1 [of a t "k * b"])
  then show ?thesis by (simp add: mod_simps)
qed

lemma HourFromTime_shift: "HourFromTime (t + k * msPerDay) = HourFromTime t"
proof -
  have "t + k * msPerDay = t + k * 24 * 3600000" by (simp add: msPerDay_def)
  then have "HourFromTime (t + k * msPerDay) = ((t + k * 24 * 3600000) div 3600000) mod 24"
    by (simp only: HourFromTime_def)
  also have "\<dots> = (t div 3600000) mod 24" by (rule div_mod_shift) simp
  finally show ?thesis by (simp only: HourFromTime_def)
qed

lemma MinFromTime_shift: "MinFromTime (t + k * msPerDay) = MinFromTime t"
proof -
  have "t + k * msPerDay = t + (k * 24) * 60 * 60000" by (simp add: msPerDay_def)
  then have "MinFromTime (t + k * msPerDay) = ((t + (k * 24) * 60 * 60000) div 60000) mod 60"
    by (simp only: MinFromTime_def)
  also have "\<dots> = (t div 60000) mod 60" by (rule div_mod_shift) simp
  finally show ?thesis by (simp only: MinFromTime_def)
qed

lemma SecFromTime_shift: "SecFromTime (t + k * msPerDay) = SecFromTime t"
proof -
  have "t + k * msPerDay = t + (k * 1440) * 60 * 1000" by (simp add: msPerDay_def)
  then have "SecFromTime (t + k * msPerDay) = ((t + (k * 1440) * 60 * 1000) div 1000) mod 60"
    by (simp only: SecFromTime_def)
  also have "\<dots> = (t div 1000) mod 60" by (rule div_mod_shift) simp
  finally show ?thesis by (simp only: SecFromTime_def)
qed

lemma formatTime_fixed_shift:
  "formatTime (fixed_zone c) (t + k * msPerDay) = formatTime (fixed_zone c) t"
proof -
  have "t + k * msPerDay + c = (t + c) + k * msPerDay" by simp
  then show ?thesis
    by (simp only: formatTime_def getHours_def getMinutes_def getSeconds_def LocalTime_def
        fixed_zone_def HourFromTime_shift MinFromTime_shift SecFromTime_shift)
qed

lemma setMonth_fixed:
  "setMonth (fixed_zone c) t month =
     t + (MakeDay (YearFromTime (t + c)) month (DateFromTime (t + c)) - Day (t + c)) * msPerDay"
proof -
  have "(t + c) div msPerDay * msPerDay + (t + c) mod msPerDay = t + c" by simp
  then have "(t + c) mod msPerDay = t + c - (t + c) div msPerDay * msPerDay" by linarith
  then show ?thesis
    by (simp add: setMonth_def Let_def LocalTime_def UTC_def fixed_zone_def MakeDate_def
        TimeWithinDay_def Day_def left_diff_distrib)
qed

lemma formatTime_twoMonthsAgo:
  assumes "LocalTZA h = fixed_zone c"
  shows "formatTime (fixed_zone c) (twoMonthsAgo h) = formatTime (fixed_zone c) (now h 1)"
  unfolding twoMonthsAgo_def assms setMonth_fixed by (rule formatTime_fixed_shift)

lemma time_prepare: "time (prepare h d e k c) = formatTime (LocalTZA h) d"
  by (simp add: prepare_def spread_def Let_def)

lemma date_prepare: "date (prepare h d e k c) = toISODate d"
  by (simp add: prepare_def spread_def Let_def)

lemma time_record_at_fixed:
  assumes "LocalTZA h = fixed_zone c"
  shows "time (record_at h m (twoMonthsAgo h) e k c' i) = formatTime (fixed_zone c) (now h 1)"
proof -
  have "time (record_at h m (twoMonthsAgo h) e k c' i) =
        formatTime (fixed_zone c) (twoMonthsAgo h + int i * msPerDay)"
    by (simp add: record_at_def time_prepare assms day_at_fixed)
  also have "\<dots> = formatTime (fixed_zone c) (twoMonthsAgo h)"
    by (rule formatTime_fixed_shift)
  finally show ?thesis by (simp only: formatTime_twoMonthsAgo [OF assms])
qed


lemma digits_small: "n < 10 \<Longrightarrow> digits n = [''0123456789'' ! n]"
  by (subst digits.simps) simp

lemma digits_large:
  "\<not> n < 10 \<Longrightarrow> digits n = digits (n div 10) @ [''0123456789'' ! (n mod 10)]"
  by (subst digits.simps) simp

lemma length_digits:
  "n < 10 \<Longrightarrow> length (digits n) = 1"
  "10 \<le> n \<Longrightarrow> n < 100 \<Longrightarrow> length (digits n) = 2"
proof -
  show "n < 10 \<Longrightarrow> length (digits n) = 1" by (simp add: digits_small)
  assume a: "10 \<le> n" "n < 100"
  then have "n div 10 < 10" by simp
  then have "length (digits (n div 10)) = 1" by (simp add: digits_small)
  with a show "length (digits n) = 2" by (simp add: digits_large)
qed

lemma length_pad2:
  assumes "0 \<le> m" and "m < 60"
  shows "length (padStart 2 (CHR ''0'') (toString m)) = 2"
proof (cases "nat m < 10")
  case True
  then have "length (digits (nat m)) = 1" by (rule length_digits)
  with assms show ?thesis by (simp add: padStart_def toString_def)
next
  case False
  with assms have "10 \<le> nat m" "nat m < 100" by simp_all
  then have "length (digits (nat m)) = 2" by (rule length_digits)
  with assms show ?thesis by (simp add: padStart_def toString_def)
qed

lemma clock_ranges:
  "0 \<le> getHours z t \<and> getHours z t < 24"
  "0 \<le> getMinutes z t \<and> getMinutes z t < 60"
  "0 \<le> getSeconds z t \<and> getSeconds z t < 60"
  by (simp_all add: getHours_def getMinutes_def getSeconds_def
      HourFromTime_def MinFromTime_def SecFromTime_def)

lemma formatTime_shape:
  "\<exists>hh. 1 \<le> hh \<and> hh \<le> 12 \<and> hh mod 12 = getHours z t mod 12 \<and>
      length (padStart 2 (CHR ''0'') (toString (getMinutes z t))) = 2 \<and>
      length (padStart 2 (CHR ''0'') (toString (getSeconds z t))) = 2 \<and>
      formatTime z t =
        toString hh @ '':'' @ padStart 2 (CHR ''0'') (toString (getMinutes z t)) @ '':'' @
        padStart 2 (CHR ''0'') (toString (getSeconds z t)) @ '' '' @
        (if getHours z t < 12 then ''AM'' else ''PM'')"
proof -
  define hh where "hh = (if getHours z t mod 12 \<noteq> 0 then getHours z t mod 12 else 12)"
  have "0 \<le> getHours z t mod 12" "getHours z t mod 12 < 12" by simp_all
  then have 1: "1 \<le> hh \<and> hh \<le> 12 \<and> hh mod 12 = getHours z t mod 12"
    unfolding hh_def by auto
  have 2: "length (padStart 2 (CHR ''0'') (toString (getMinutes z t))) = 2"
    using clock_ranges(2) [of z t] by (intro length_pad2) simp_all
  have 3: "length (padStart 2 (CHR ''0'') (toString (getSeconds z t))) = 2"
    using clock_ranges(3) [of z t] by (intro length_pad2) simp_all
  have 4: "formatTime z t =
        toString hh @ '':'' @ padStart 2 (CHR ''0'') (toString (getMinutes z t)) @ '':'' @
        padStart 2 (CHR ''0'') (toString (getSeconds z t)) @ '' '' @
        (if getHours z t < 12 then ''AM'' else ''PM'')"
    unfolding formatTime_def Let_def hh_def by (simp add: not_less)
  from 1 2 3 4 show ?thesis by blast
qed

lemma dst_host_steady: "steady (LocalTZA dst_host)"
  by (simp add: dst_host_def steady_def us_eastern_2024_def msPerDay_def)

lemma time_record_at:
  "time (record_at h m d e k c i) = formatTime (LocalTZA h) (day_at (LocalTZA h) d i)"
  by (simp add: record_at_def time_prepare)

lemma generateData_two:
  assumes "steady (LocalTZA h)"
    and "next_day (LocalTZA h) (twoMonthsAgo h) \<le> now h 0"
  shows "\<exists>recs. generateData h m = Some recs \<and>
           time (recs ! 0) = formatTime (LocalTZA h) (twoMonthsAgo h) \<and>
           time (recs ! 1) = formatTime (LocalTZA h) (next_day (LocalTZA h) (twoMonthsAgo h))"
proof -
  from generateData_total [OF assms(1)] obtain recs where run: "generateData h m = Some recs"
    by blast
  from generateData_Some [OF run] obtain n where
    n: "now h 0 < day_at (LocalTZA h) (twoMonthsAgo h) n"
       "recs = map (record_at h m (twoMonthsAgo h) (initialEnergy h m) 1 2) [0..<n]"
    unfolding unrolled_def by auto
  have 1: "day_at (LocalTZA h) (twoMonthsAgo h) 1 \<le> now h 0"
    using assms(2) by (simp add: day_at_def)
  have "twoMonthsAgo h < next_day (LocalTZA h) (twoMonthsAgo h)"
    by (rule next_day_steady [OF assms(1)])
  with assms(2) have 0: "day_at (LocalTZA h) (twoMonthsAgo h) 0 \<le> now h 0"
    by (simp add: day_at_0)
  have "n \<noteq> 0" using n(1) 0 by (intro notI) simp
  moreover have "n \<noteq> 1" using n(1) 1 by (intro notI) simp
  ultimately have "0 < n" "1 < n" by simp_all
  then have "time (recs ! 0) = formatTime (LocalTZA h) (twoMonthsAgo h)"
    "time (recs ! 1) = formatTime (LocalTZA h) (next_day (LocalTZA h) (twoMonthsAgo h))"
    unfolding n(2) by (simp_all only: nth_map_upt0 time_record_at) (simp_all add: day_at_def)
  with run show ?thesis by blast
qed

lemma date_record_at:
  "date (record_at h m d e k c i) = toISODate (day_at (LocalTZA h) d i)"
  by (simp add: record_at_def date_prepare)

lemma Day_shift: "Day (t + k * msPerDay) = Day t + k"
  by (simp add: Day_def msPerDay_def)

lemma last_map_upt: "last (map f [0..<Suc n]) = f n"
  by simp

lemma tick_host_days: "days_covered tick_host = 61"
  by code_simp

lemma tick_host_run:
  "generateData tick_host m =
     Some (map (record_at tick_host m (twoMonthsAgo tick_host) (initialEnergy tick_host m) 1 2)
             [0..<Suc 60])"
proof -
  have "LocalTZA tick_host = fixed_zone 19800000" by (simp add: tick_host_def example_host_def)
  from generateData_fixed [OF this, of m] show ?thesis by (simp only: tick_host_days) simp
qed

subsection \<open>The calendar\<close>

text \<open>
  The year computed by \<open>YearFromTime\<close> is the year of the standard: the largest year
  that starts on or before the day of \<open>t\<close>.
\<close>

lemma div_succ:
  fixes a n :: int
  assumes "1 < n"
  shows "(a + 1) div n = a div n + (if (a + 1) mod n = 0 then 1 else 0)"
proof -
  define r where "r = a mod n"
  have r: "0 \<le> r" "r < n" using assms by (simp_all add: r_def)
  have a: "a + 1 = (r + 1) + a div n * n" by (simp add: r_def)
  have d: "(a + 1) div n = a div n + (r + 1) div n"
    unfolding a using assms by (simp only: div_mult_self1)
  have m: "(a + 1) mod n = (r + 1) mod n"
    unfolding a by (simp only: mod_mult_self1)
  show ?thesis
  proof (cases "r + 1 = n")
    case True
    then show ?thesis using assms by (simp add: d m)
  next
    case False
    with r have "r + 1 < n" by simp
    with r have "(r + 1) div n = 0" "(r + 1) mod n = r + 1"
      by (simp_all add: div_pos_pos_trivial mod_pos_pos_trivial)
    with r show ?thesis by (simp add: d m)
  qed
qed

lemma leap_mod:
  fixes y :: int
  shows "(y - 1968) mod 4 = y mod 4" "(y - 1900) mod 100 = y mod 100"
    "(y - 1600) mod 400 = y mod 400"
proof -
  have "y - 1968 = y + (- 492) * 4" "y - 1900 = y + (- 19) * 100" "y - 1600 = y + (- 4) * 400"
    by simp_all
  then show "(y - 1968) mod 4 = y mod 4" "(y - 1900) mod 100 = y mod 100"
    "(y - 1600) mod 400 = y mod 400"
    by (simp_all only: mod_mult_self1)
qed

lemma leap_dvd:
  fixes y :: int
  shows "y mod 100 = 0 \<Longrightarrow> y mod 4 = 0" "y mod 400 = 0 \<Longrightarrow> y mod 100 = 0"
proof -
  have "(4::int) dvd 100" "(100::int) dvd 400" by simp_all
  then show "y mod 100 = 0 \<Longrightarrow> y mod 4 = 0" "y mod 400 = 0 \<Longrightarrow> y mod 100 = 0"
    by (auto simp only: mod_eq_0_iff_dvd dest: dvd_trans)
qed

lemma DayFromYear_step: "DayFromYear (y + 1) = DayFromYear y + DaysInYear y"
proof -
  have 4: "(y + 1 - 1969) div 4 = (y - 1969) div 4 + (if y mod 4 = 0 then 1 else 0)"
    using div_succ [of 4 "y - 1969"] leap_mod(1) [of y] by (simp add: algebra_simps)
  have 100: "(y + 1 - 1901) div 100 = (y - 1901) div 100 + (if y mod 100 = 0 then 1 else 0)"
    using div_succ [of 100 "y - 1901"] leap_mod(2) [of y] by (simp add: algebra_simps)
  have 400: "(y + 1 - 1601) div 400 = (y - 1601) div 400 + (if y mod 400 = 0 then 1 else 0)"
    using div_succ [of 400 "y - 1601"] leap_mod(3) [of y] by (simp add: algebra_simps)
  show ?thesis
    unfolding DayFromYear_def DaysInYear_def 4 100 400
    using leap_dvd [of y] by auto
qed

lemma DaysInYear_pos: "0 < DaysInYear y"
  by (simp add: DaysInYear_def)

lemma DayFromYear_less: "y < y' \<Longrightarrow> DayFromYear y < DayFromYear y'"
proof (induction y' rule: int_gr_induct)
  case base
  then show ?case using DaysInYear_pos [of y] by (simp add: DayFromYear_step)
next
  case (step i)
  then show ?case using DaysInYear_pos [of i] by (simp add: DayFromYear_step)
qed


lemma div_offset:
  fixes k x m :: int
  assumes "0 \<le> x" and "x < m"
  shows "(x + k * m) div m = k"
  using assms by (simp add: div_pos_pos_trivial)

lemma mod_zero_iff_eq:
  fixes x m :: int
  assumes "0 < x" and "x \<le> m"
  shows "x mod m = 0 \<longleftrightarrow> x = m"
proof (cases "x = m")
  case True
  then show ?thesis by simp
next
  case False
  with assms have "x mod m = x" by (simp add: mod_pos_pos_trivial)
  with assms False show ?thesis by simp
qed

lemma YearFromTime_bounds:
  "DayFromYear (YearFromTime t) \<le> Day t \<and> Day t < DayFromYear (YearFromTime t + 1)"
proof -
  define n where "n = Day t - 11323"
  define q where "q = n div 146097"
  define r where "r = n mod 146097"
  define a where "a = min (r div 36524) 3"
  define r1 where "r1 = r - a * 36524"
  define b where "b = r1 div 1461"
  define r2 where "r2 = r1 mod 1461"
  define c where "c = min (r2 div 365) 3"
  define Y where "Y = 2001 + 400 * q + 100 * a + 4 * b + c"
  have Y: "YearFromTime t = Y"
    by (simp add: YearFromTime_def Let_def Y_def c_def r2_def b_def r1_def a_def r_def q_def n_def)
  have n: "n = q * 146097 + r" by (simp add: q_def r_def)
  have r: "0 \<le> r" "r < 146097" by (simp_all add: r_def)
  have a: "0 \<le> a" "a \<le> 3" using r by (simp_all add: a_def pos_imp_zdiv_nonneg_iff)
  have ra: "r = r div 36524 * 36524 + r mod 36524" by simp
  have rm: "0 \<le> r mod 36524" "r mod 36524 < 36524" by simp_all
  have r1: "0 \<le> r1" "r1 \<le> 36524" "a < 3 \<Longrightarrow> r1 < 36524"
    using r ra rm unfolding r1_def a_def min_def by (auto split: if_splits)
  have r1b: "r1 = b * 1461 + r2" by (simp add: b_def r2_def)
  have r2: "0 \<le> r2" "r2 < 1461" by (simp_all add: r2_def)
  have b: "0 \<le> b" "b \<le> 24" using r1 r1b r2 by linarith+
  have c: "0 \<le> c" "c \<le> 3" using r2 by (simp_all add: c_def pos_imp_zdiv_nonneg_iff)
  have r2c: "r2 = r2 div 365 * 365 + r2 mod 365" by simp
  have r2m: "0 \<le> r2 mod 365" "r2 mod 365 < 365" by simp_all
  have c_lo: "365 * c \<le> r2" and c_hi: "c < 3 \<Longrightarrow> r2 < 365 * c + 365"
    using r2c r2m unfolding c_def min_def by (auto split: if_splits)
  have d: "Day t = 11323 + 146097 * q + 36524 * a + 1461 * b + r2"
    using n r1b by (simp add: n_def r1_def)
  have e4: "Y - 1969 = c + (8 + 100 * q + 25 * a + b) * 4" by (simp add: Y_def)
  have e100: "Y - 1901 = (4 * b + c) + (1 + 4 * q + a) * 100" by (simp add: Y_def)
  have e400: "Y - 1601 = (100 * a + 4 * b + c) + (1 + q) * 400" by (simp add: Y_def)
  have d4: "(Y - 1969) div 4 = 8 + 100 * q + 25 * a + b"
    unfolding e4 using c by (intro div_offset) simp_all
  have d100: "(Y - 1901) div 100 = 1 + 4 * q + a"
    unfolding e100 using b c by (intro div_offset) simp_all
  have d400: "(Y - 1601) div 400 = 1 + q"
    unfolding e400 using a b c by (intro div_offset) simp_all
  have dfy: "DayFromYear Y = 11323 + 146097 * q + 36524 * a + 1461 * b + 365 * c"
    unfolding DayFromYear_def d4 d100 d400 by (simp add: Y_def)
  have lo: "DayFromYear Y \<le> Day t" using dfy d c_lo by simp
  have m4: "Y mod 4 = 0 \<longleftrightarrow> c = 3"
  proof -
    have "Y = (c + 1) + (500 + 100 * q + 25 * a + b) * 4" by (simp add: Y_def)
    then have "Y mod 4 = (c + 1) mod 4" by (simp only: mod_mult_self1)
    moreover have "(c + 1) mod 4 = 0 \<longleftrightarrow> c + 1 = 4"
      using c by (intro mod_zero_iff_eq) simp_all
    ultimately show ?thesis by simp
  qed
  have m100: "Y mod 100 = 0 \<longleftrightarrow> b = 24 \<and> c = 3"
  proof -
    have "Y = (4 * b + c + 1) + (20 + 4 * q + a) * 100" by (simp add: Y_def)
    then have "Y mod 100 = (4 * b + c + 1) mod 100" by (simp only: mod_mult_self1)
    moreover have "(4 * b + c + 1) mod 100 = 0 \<longleftrightarrow> 4 * b + c + 1 = 100"
      using b c by (intro mod_zero_iff_eq) simp_all
    moreover have "4 * b + c + 1 = 100 \<longleftrightarrow> b = 24 \<and> c = 3" using b c by arith
    ultimately show ?thesis by simp
  qed
  have m400: "Y mod 400 = 0 \<longleftrightarrow> a = 3 \<and> b = 24 \<and> c = 3"
  proof -
    have "Y = (100 * a + 4 * b + c + 1) + (5 + q) * 400" by (simp add: Y_def)
    then have "Y mod 400 = (100 * a + 4 * b + c + 1) mod 400" by (simp only: mod_mult_self1)
    moreover have "(100 * a + 4 * b + c + 1) mod 400 = 0 \<longleftrightarrow> 100 * a + 4 * b + c + 1 = 400"
      using a b c by (intro mod_zero_iff_eq) simp_all
    moreover have "100 * a + 4 * b + c + 1 = 400 \<longleftrightarrow> a = 3 \<and> b = 24 \<and> c = 3"
      using a b c by arith
    ultimately show ?thesis by simp
  qed
  have hi: "Day t < DayFromYear (Y + 1)"
  proof (cases "c = 3")
    case False
    with c have "c < 3" by simp
    from c_hi [OF this] show ?thesis
      unfolding DayFromYear_step dfy d using DaysInYear_pos [of Y]
      by (simp add: DaysInYear_def m4 False)
  next
    case c3: True
    show ?thesis
    proof (cases "b = 24")
      case False
      then show ?thesis
        unfolding DayFromYear_step dfy d using r2
        by (simp add: DaysInYear_def m4 m100 c3)
    next
      case b24: True
      show ?thesis
      proof (cases "a = 3")
        case True
        then show ?thesis
          unfolding DayFromYear_step dfy d using r2
          by (simp add: DaysInYear_def m4 m100 m400 c3 b24)
      next
        case False
        with a have "a < 3" by simp
        from r1(3) [OF this] r1b b24 have "r2 < 1460" by simp
        then show ?thesis
          unfolding DayFromYear_step dfy d
          by (simp add: DaysInYear_def m4 m100 m400 c3 b24 False)
      qed
    qed
  qed
  from lo hi show ?thesis unfolding Y by simp
qed

lemma YearFromTime_largest: "DayFromYear y \<le> Day t \<longleftrightarrow> y \<le> YearFromTime t"
proof
  assume le: "DayFromYear y \<le> Day t"
  show "y \<le> YearFromTime t"
  proof (rule ccontr)
    assume "\<not> y \<le> YearFromTime t"
    then have "YearFromTime t + 1 \<le> y" by simp
    then have "DayFromYear (YearFromTime t + 1) \<le> DayFromYear y"
      using DayFromYear_less [of "YearFromTime t + 1" y] by (cases "YearFromTime t + 1 = y") auto
    with le YearFromTime_bounds [of t] show False by simp
  qed
next
  assume "y \<le> YearFromTime t"
  then have "DayFromYear y \<le> DayFromYear (YearFromTime t)"
    using DayFromYear_less [of y "YearFromTime t"] by (cases "y = YearFromTime t") auto
  with YearFromTime_bounds [of t] show "DayFromYear y \<le> Day t" by simp
qed


lemma Day_calendar:
  "Day t = DayFromYear (YearFromTime t) + DaysBeforeMonth (MonthFromTime t) (InLeapYear t) +
     DateFromTime t - 1"
  by (simp add: DateFromTime_def DayWithinYear_def)

subsection \<open>Date strings\<close>

lemma digit_val_nth: "k < 10 \<Longrightarrow> digit_val (''0123456789'' ! k) = k"
proof -
  assume "k < 10"
  then have "k = 0 \<or> k = 1 \<or> k = 2 \<or> k = 3 \<or> k = 4 \<or> k = 5 \<or> k = 6 \<or> k = 7 \<or> k = 8 \<or> k = 9"
    by presburger
  then show ?thesis by (elim disjE) (simp_all add: digit_val_def)
qed

lemma decimal_snoc: "decimal (s @ [c]) = 10 * decimal s + digit_val c"
  by (simp add: decimal_def)

lemma decimal_digits: "decimal (digits n) = n"
proof (induction n rule: digits.induct)
  case (1 n)
  show ?case
  proof (cases "n < 10")
    case True
    then show ?thesis by (simp add: digits_small decimal_def digit_val_nth)
  next
    case False
    then have "digits n = digits (n div 10) @ [''0123456789'' ! (n mod 10)]"
      by (rule digits_large)
    then have "decimal (digits n) = 10 * decimal (digits (n div 10)) + n mod 10"
      by (simp only: decimal_snoc) (simp add: digit_val_nth)
    with 1 False show ?thesis by simp
  qed
qed

lemma decimal_zeros: "decimal (replicate k (CHR ''0'') @ s) = decimal s"
proof -
  have "foldl (\<lambda>a c. 10 * a + digit_val c) 0 (replicate k (CHR ''0'')) = 0"
    by (induction k) (simp_all add: digit_val_def)
  then show ?thesis by (simp add: decimal_def)
qed

lemma decimal_padStart: "decimal (padStart k (CHR ''0'') (digits n)) = n"
  by (simp only: padStart_def decimal_zeros decimal_digits)

lemma length_padStart: "length (padStart k c s) = max k (length s)"
  by (simp add: padStart_def)

lemma length_digits_le: "0 < k \<Longrightarrow> n < 10 ^ k \<Longrightarrow> length (digits n) \<le> k"
proof (induction k arbitrary: n)
  case 0
  then show ?case by simp
next
  case (Suc k)
  show ?case
  proof (cases "n < 10")
    case True
    then show ?thesis by (simp add: digits_small)
  next
    case False
    then have k: "0 < k" using Suc.prems by (cases k) auto
    from Suc.prems have "n div 10 < 10 ^ k" by (simp add: less_mult_imp_div_less mult.commute)
    from Suc.IH [OF k this] have "length (digits (n div 10)) \<le> k" .
    moreover from False have "digits n = digits (n div 10) @ [''0123456789'' ! (n mod 10)]"
      by (rule digits_large)
    ultimately show ?thesis by simp
  qed
qed

lemma DayWithinYear_range:
  "0 \<le> DayWithinYear t \<and> DayWithinYear t < 365 + InLeapYear t"
proof -
  have "DaysInYear (YearFromTime t) = 365 + InLeapYear t"
    by (simp add: InLeapYear_def DaysInYear_def)
  with YearFromTime_bounds [of t] DayFromYear_step [of "YearFromTime t"] show ?thesis
    by (simp add: DayWithinYear_def)
qed

lemma InLeapYear_cases: "InLeapYear t = 0 \<or> InLeapYear t = 1"
  by (simp add: InLeapYear_def)

lemma DateFromTime_range: "1 \<le> DateFromTime t \<and> DateFromTime t \<le> 31"
proof -
  define d where "d = DayWithinYear t"
  define l where "l = InLeapYear t"
  have d: "0 \<le> d" "d < 365 + l" using DayWithinYear_range [of t] by (simp_all add: d_def l_def)
  have l: "l = 0 \<or> l = 1" using InLeapYear_cases [of t] by (simp add: l_def)
  have "DateFromTime t =
      d - DaysBeforeMonth
            (if d < 31 then 0 else if d < 59 + l then 1 else if d < 90 + l then 2
             else if d < 120 + l then 3 else if d < 151 + l then 4 else if d < 181 + l then 5
             else if d < 212 + l then 6 else if d < 243 + l then 7 else if d < 273 + l then 8
             else if d < 304 + l then 9 else if d < 334 + l then 10 else 11) l + 1"
    by (simp only: DateFromTime_def MonthFromTime_def Let_def d_def l_def)
  with d l show ?thesis by (auto simp: DaysBeforeMonth_def)
qed

lemma readYear_isoYear: "readYear (isoYear y) = y"
proof (cases "0 \<le> y \<and> y \<le> 9999")
  case True
  then have "nat y < 10 ^ 4" by (simp add: nat_less_iff)
  with length_digits_le [of 4 "nat y"] have "length (digits (nat y)) \<le> 4" by simp
  moreover have "length (padStart 4 (CHR ''0'') (digits (nat y))) = max 4 (length (digits (nat y)))"
    by (rule length_padStart)
  ultimately have "length (padStart 4 (CHR ''0'') (digits (nat y))) = 4" by simp
  with True show ?thesis
    by (simp add: readYear_def isoYear_def decimal_padStart)
next
  case False
  define body where "body = padStart 6 (CHR ''0'') (digits (nat \<bar>y\<bar>))"
  have "length body = max 6 (length (digits (nat \<bar>y\<bar>)))"
    unfolding body_def by (rule length_padStart)
  then have len: "6 \<le> length body" by simp
  have dec: "decimal body = nat \<bar>y\<bar>" by (simp only: body_def decimal_padStart)
  show ?thesis
  proof (cases "y < 0")
    case True
    with False have "isoYear y = CHR ''-'' # body" by (simp add: isoYear_def body_def)
    with len dec True show ?thesis by (simp add: readYear_def)
  next
    case pos: False
    with False have "isoYear y = CHR ''+'' # body" by (simp add: isoYear_def body_def)
    with len dec pos show ?thesis by (simp add: readYear_def)
  qed
qed

lemma readISODate_toISODate:
  "readISODate (toISODate t) = (YearFromTime t, MonthFromTime t, DateFromTime t)"
proof -
  define ys where "ys = isoYear (YearFromTime t)"
  define mm where "mm = padStart 2 (CHR ''0'') (digits (nat (MonthFromTime t + 1)))"
  define dd where "dd = padStart 2 (CHR ''0'') (digits (nat (DateFromTime t)))"
  have m: "0 \<le> MonthFromTime t" "MonthFromTime t \<le> 11"
    using MonthFromTime_range [of t] by simp_all
  have d: "1 \<le> DateFromTime t" "DateFromTime t \<le> 31"
    using DateFromTime_range [of t] by simp_all
  have "nat (MonthFromTime t + 1) < 10 ^ 2" using m by simp
  with length_digits_le [of 2 "nat (MonthFromTime t + 1)"]
  have "length (digits (nat (MonthFromTime t + 1))) \<le> 2" by simp
  moreover have "length mm = max 2 (length (digits (nat (MonthFromTime t + 1))))"
    unfolding mm_def by (rule length_padStart)
  ultimately have lm: "length mm = 2" by simp
  have "nat (DateFromTime t) < 10 ^ 2" using d by simp
  with length_digits_le [of 2 "nat (DateFromTime t)"]
  have "length (digits (nat (DateFromTime t))) \<le> 2" by simp
  moreover have "length dd = max 2 (length (digits (nat (DateFromTime t))))"
    unfolding dd_def by (rule length_padStart)
  ultimately have ld: "length dd = 2" by simp
  have s: "toISODate t = ys @ ''-'' @ mm @ ''-'' @ dd"
    by (simp only: toISODate_def ys_def mm_def dd_def)
  have n: "length (toISODate t) = length ys + 6" by (simp add: s lm ld)
  have 1: "take (length (toISODate t) - 6) (toISODate t) = ys" by (simp add: n) (simp add: s)
  have 2: "take 2 (drop (length (toISODate t) - 5) (toISODate t)) = mm"
    by (simp add: n) (simp add: s lm)
  have 3: "drop (length (toISODate t) - 2) (toISODate t) = dd"
    by (simp add: n) (simp add: s lm ld)
  have "readYear ys = YearFromTime t" by (simp only: ys_def readYear_isoYear)
  moreover have "int (decimal mm) - 1 = MonthFromTime t"
    using m by (simp add: mm_def decimal_padStart)
  moreover have "int (decimal dd) = DateFromTime t"
    using d by (simp add: dd_def decimal_padStart)
  ultimately show ?thesis by (simp only: readISODate_def Let_def 1 2 3)
qed

lemma toISODate_Day:
  assumes "toISODate t = toISODate t'"
  shows "Day t = Day t'"
proof -
  from assms have "readISODate (toISODate t) = readISODate (toISODate t')" by simp
  then have e: "YearFromTime t = YearFromTime t'" "MonthFromTime t = MonthFromTime t'"
    "DateFromTime t = DateFromTime t'"
    by (simp_all only: readISODate_toISODate prod.inject)
  then have "InLeapYear t = InLeapYear t'" by (simp add: InLeapYear_def)
  with e show ?thesis by (simp only: Day_calendar [of t] Day_calendar [of t'])
qed


lemma dates_distinct:
  assumes "LocalTZA h = fixed_zone c" and "generateData h m = Some recs"
  shows "distinct (map date recs)"
proof -
  from assms(2) obtain n where
    recs: "recs = map (record_at h m (twoMonthsAgo h) (initialEnergy h m) 1 2) [0..<n]"
    by (rule generateData_records)
  have d: "map date recs = map (\<lambda>i. toISODate (twoMonthsAgo h + int i * msPerDay)) [0..<n]"
    unfolding recs by (simp add: date_record_at assms(1) day_at_fixed comp_def del: upt_Suc)
  have "inj_on (\<lambda>i. toISODate (twoMonthsAgo h + int i * msPerDay)) (set [0..<n])"
  proof (rule inj_onI)
    fix i j
    assume "toISODate (twoMonthsAgo h + int i * msPerDay) =
        toISODate (twoMonthsAgo h + int j * msPerDay)"
    then have "Day (twoMonthsAgo h + int i * msPerDay) = Day (twoMonthsAgo h + int j * msPerDay)"
      by (rule toISODate_Day)
    then show "i = j" by (simp add: Day_shift)
  qed
  then show ?thesis unfolding d by (simp add: distinct_map del: upt_Suc)
qed

subsection \<open>The days of a run whose clock is read once\<close>

text \<open>
  When both readings of the clock return the same instant and the zone has no
  transition, the loop starts a whole number of days before \<open>today\<close> and ends exactly
  on it: there is one record for each UTC day from the day of \<open>twoMonthsAgo\<close> to today.
\<close>

lemma DaysBeforeMonth_two_back:
  assumes "2 \<le> m" and "m \<le> 11" and "0 \<le> l"
  shows "DaysBeforeMonth (m - 2) l \<le> DaysBeforeMonth m l"
proof -
  from assms(1,2) have "m = 2 \<or> m = 3 \<or> m = 4 \<or> m = 5 \<or> m = 6 \<or> m = 7 \<or> m = 8 \<or>
      m = 9 \<or> m = 10 \<or> m = 11" by presburger
  then show ?thesis using assms(3) by (elim disjE) (simp_all add: DaysBeforeMonth_def)
qed

lemma two_months_back:
  "MakeDay (YearFromTime t) (MonthFromTime t - 2) (DateFromTime t) \<le> Day t"
proof -
  define Y where "Y = YearFromTime t"
  define M where "M = MonthFromTime t"
  define L where "L = InLeapYear t"
  have M: "0 \<le> M" "M \<le> 11" using MonthFromTime_range [of t] by (simp_all add: M_def)
  have L: "0 \<le> L" by (simp add: L_def InLeapYear_def)
  have L_eq: "(if DaysInYear Y = 366 then 1 else 0) = L" by (simp add: L_def InLeapYear_def Y_def)
  show ?thesis
  proof (cases "2 \<le> M")
    case True
    with M have "(M - 2) div 12 = 0" "(M - 2) mod 12 = M - 2" by simp_all
    then have "MakeDay Y (M - 2) (DateFromTime t) =
        DayFromYear Y + DaysBeforeMonth (M - 2) L + DateFromTime t - 1"
      by (simp add: MakeDay_def Let_def L_eq)
    with DaysBeforeMonth_two_back [OF True M(2) L] show ?thesis
      unfolding Day_calendar [of t] Y_def [symmetric] M_def [symmetric] L_def [symmetric] by simp
  next
    case False
    with M have cases: "M = 0 \<or> M = 1" by arith
    then have dm: "(M - 2) div 12 = - 1" "(M - 2) mod 12 = M + 10" by auto
    define L' :: int where "L' = (if DaysInYear (Y - 1) = 366 then 1 else 0)"
    have "DaysInYear (Y - 1) = 365 + L'" by (simp add: L'_def DaysInYear_def)
    with DayFromYear_step [of "Y - 1"] have step: "DayFromYear Y = DayFromYear (Y - 1) + 365 + L'"
      by simp
    have "MakeDay Y (M - 2) (DateFromTime t) =
        DayFromYear (Y - 1) + DaysBeforeMonth (M + 10) L' + DateFromTime t - 1"
      by (simp add: MakeDay_def Let_def dm L'_def)
    moreover have "DaysBeforeMonth (M + 10) L' \<le> 365 + L' + DaysBeforeMonth M L"
      using cases L by (auto simp: DaysBeforeMonth_def)
    ultimately show ?thesis
      unfolding Day_calendar [of t] Y_def [symmetric] M_def [symmetric] L_def [symmetric] step
      by simp
  qed
qed

lemma twoMonthsAgo_before:
  assumes "LocalTZA h = fixed_zone c" and "now h 1 = now h 0"
  shows "\<exists>k. 0 \<le> k \<and> now h 0 = twoMonthsAgo h + k * msPerDay"
proof -
  define t where "t = now h 0 + c"
  define k where "k = Day t - MakeDay (YearFromTime t) (MonthFromTime t - 2) (DateFromTime t)"
  have "0 \<le> k" using two_months_back [of t] by (simp add: k_def)
  moreover have "twoMonthsAgo h = now h 0 + (- k) * msPerDay"
    unfolding twoMonthsAgo_def assms setMonth_fixed
    by (simp add: getMonth_def LocalTime_def fixed_zone_def k_def t_def)
  ultimately show ?thesis by (intro exI [of _ k]) (simp add: algebra_simps)
qed

lemma one_record_per_day:
  assumes "LocalTZA h = fixed_zone c" and "now h 1 = now h 0"
  shows "\<exists>recs. generateData h m = Some recs \<and>
           int (length recs) = Day (now h 0) - Day (twoMonthsAgo h) + 1 \<and>
           (\<forall>i<length recs. date (recs ! i) = toISODate (twoMonthsAgo h + int i * msPerDay) \<and>
              Day (twoMonthsAgo h + int i * msPerDay) = Day (twoMonthsAgo h) + int i) \<and>
           date (last recs) = toISODate (now h 0)"
proof -
  from twoMonthsAgo_before [OF assms] obtain k where
    k: "0 \<le> k" "now h 0 = twoMonthsAgo h + k * msPerDay" by blast
  define recs where
    "recs = map (record_at h m (twoMonthsAgo h) (initialEnergy h m) 1 2) [0..<days_covered h]"
  have run: "generateData h m = Some recs"
    unfolding recs_def by (rule generateData_fixed [OF assms(1)])
  have p: "0 < msPerDay" by (simp add: msPerDay_def)
  have le: "twoMonthsAgo h \<le> now h 0" using k p by simp
  have "(now h 0 - twoMonthsAgo h) div msPerDay = k" using k(2) p by simp
  with le k(1) have n: "days_covered h = Suc (nat k)" by (simp add: days_covered_def)
  have len: "length recs = Suc (nat k)" by (simp add: recs_def n)
  have dk: "Day (now h 0) - Day (twoMonthsAgo h) = k"
    unfolding k(2) by (simp add: Day_shift)
  have 1: "int (length recs) = Day (now h 0) - Day (twoMonthsAgo h) + 1"
    using k(1) by (simp add: len dk)
  have 2: "date (recs ! i) = toISODate (twoMonthsAgo h + int i * msPerDay) \<and>
      Day (twoMonthsAgo h + int i * msPerDay) = Day (twoMonthsAgo h) + int i"
    if "i < length recs" for i
    using that unfolding recs_def
    by (simp add: date_record_at assms(1) day_at_fixed Day_shift del: upt_Suc)
  have "last recs = record_at h m (twoMonthsAgo h) (initialEnergy h m) 1 2 (nat k)"
    unfolding recs_def n by (rule last_map_upt)
  then have 3: "date (last recs) = toISODate (now h 0)"
    using k by (simp add: date_record_at assms(1) day_at_fixed)
  from run 1 2 3 show ?thesis by blast
qed

subsection \<open>Local times that exist\<close>

lemma twoMonthsAgo_start_local: "twoMonthsAgo h = UTC (LocalTZA h) (start_local h)"
  by (simp add: twoMonthsAgo_def setMonth_def start_local_def Let_def)

lemma day_at_step: "day_at z d (Suc i) = next_day z (day_at z d i)"
  by (simp add: day_at_def)

lemma day_at_asked:
  assumes "\<forall>j<i. exists_locally z (L + int j * msPerDay)"
  shows "day_at z (UTC z L) i = UTC z (L + int i * msPerDay)"
  using assms
proof (induction i)
  case 0
  then show ?case by (simp add: day_at_0)
next
  case (Suc i)
  then have ih: "day_at z (UTC z L) i = UTC z (L + int i * msPerDay)" by simp
  from Suc.prems have "LocalTime z (UTC z (L + int i * msPerDay)) = L + int i * msPerDay"
    by (simp add: exists_locally_def)
  then have "next_day z (UTC z (L + int i * msPerDay)) = UTC z (L + int i * msPerDay + msPerDay)"
    by (simp only: next_day_eq)
  then show ?case by (simp add: day_at_step ih algebra_simps)
qed

lemma formatTime_local_shift:
  assumes "LocalTime z t = LocalTime z' t' + k * msPerDay"
  shows "formatTime z t = formatTime z' t'"
  by (simp only: formatTime_def getHours_def getMinutes_def getSeconds_def assms
      HourFromTime_shift MinFromTime_shift SecFromTime_shift)

lemma start_local_shift:
  "\<exists>k. start_local h = LocalTime (LocalTZA h) (now h 1) + k * msPerDay"
proof -
  define lt where "lt = LocalTime (LocalTZA h) (now h 1)"
  define dy where "dy = MakeDay (YearFromTime lt) (getMonth (LocalTZA h) (now h 0) - 2) (DateFromTime lt)"
  have "lt div msPerDay * msPerDay + lt mod msPerDay = lt" by simp
  then have m: "lt mod msPerDay = lt - lt div msPerDay * msPerDay" by linarith
  have "start_local h = MakeDate dy (TimeWithinDay lt)"
    by (simp only: start_local_def Let_def lt_def dy_def)
  also have "\<dots> = lt + (dy - lt div msPerDay) * msPerDay"
    using m by (simp add: MakeDate_def TimeWithinDay_def left_diff_distrib)
  finally show ?thesis unfolding lt_def by blast
qed

lemma time_record_at_asked:
  assumes "\<forall>j\<le>i. exists_locally (LocalTZA h) (asked_local h j)"
  shows "time (record_at h m (twoMonthsAgo h) e k c i) = formatTime (LocalTZA h) (now h 1)"
proof -
  let ?z = "LocalTZA h"
  have "\<forall>j<i. exists_locally ?z (start_local h + int j * msPerDay)"
    using assms by (simp add: asked_local_def)
  then have d: "day_at ?z (twoMonthsAgo h) i = UTC ?z (start_local h + int i * msPerDay)"
    unfolding twoMonthsAgo_start_local by (rule day_at_asked)
  from assms have "exists_locally ?z (asked_local h i)" by simp
  then have l: "LocalTime ?z (day_at ?z (twoMonthsAgo h) i) = start_local h + int i * msPerDay"
    by (simp add: d exists_locally_def asked_local_def)
  obtain k' where "start_local h = LocalTime ?z (now h 1) + k' * msPerDay"
    using start_local_shift by blast
  with l have "LocalTime ?z (day_at ?z (twoMonthsAgo h) i) =
      LocalTime ?z (now h 1) + (k' + int i) * msPerDay"
    by (simp add: distrib_right)
  then have "formatTime ?z (day_at ?z (twoMonthsAgo h) i) = formatTime ?z (now h 1)"
    by (rule formatTime_local_shift)
  then show ?thesis by (simp only: time_record_at)
qed

lemma exists_locally_fixed: "exists_locally (fixed_zone c) t"
  by (simp add: exists_locally_def LocalTime_def UTC_def fixed_zone_def)

lemma exists_locally_us_eastern_2024:
  "exists_locally us_eastern_2024 t \<longleftrightarrow> \<not> (1710036000000 \<le> t \<and> t < 1710039600000)"
  by (auto simp: exists_locally_def LocalTime_def UTC_def us_eastern_2024_def)

lemma noon_host_zone: "LocalTZA noon_host = us_eastern_2024"
  by (simp add: noon_host_def)

lemma noon_host_start_local: "start_local noon_host = 1709985600000"
  by code_simp

lemma noon_host_exists: "exists_locally (LocalTZA noon_host) (asked_local noon_host i)"
proof (cases i)
  case 0
  then show ?thesis
    by (simp add: noon_host_zone exists_locally_us_eastern_2024 asked_local_def
        noon_host_start_local)
next
  case (Suc j)
  have "0 \<le> int j * msPerDay" by (simp add: msPerDay_def)
  then show ?thesis
    unfolding Suc
    by (simp add: noon_host_zone exists_locally_us_eastern_2024 asked_local_def
        noon_host_start_local msPerDay_def)
qed

lemma UTC_us_eastern_2024:
  "t + 14400000 \<le> UTC us_eastern_2024 t" "UTC us_eastern_2024 t \<le> t + 18000000"
  by (simp_all add: UTC_def us_eastern_2024_def)

lemma noon_host_day_at:
  "day_at (LocalTZA noon_host) (twoMonthsAgo noon_host) i =
     UTC us_eastern_2024 (1709985600000 + int i * msPerDay)"
proof -
  have "\<forall>j<i. exists_locally (LocalTZA noon_host) (start_local noon_host + int j * msPerDay)"
    using noon_host_exists by (simp add: asked_local_def)
  then have "day_at (LocalTZA noon_host) (twoMonthsAgo noon_host) i =
      UTC (LocalTZA noon_host) (start_local noon_host + int i * msPerDay)"
    unfolding twoMonthsAgo_start_local by (rule day_at_asked)
  then show ?thesis by (simp only: noon_host_zone noon_host_start_local)
qed

lemma noon_host_now: "now noon_host k = 1715270400000"
  by (simp add: noon_host_def)

lemma noon_host_run:
  "generateData noon_host m =
     Some (map (record_at noon_host m (twoMonthsAgo noon_host) (initialEnergy noon_host m) 1 2)
             [0..<62])"
proof -
  have last: "UTC us_eastern_2024 (1709985600000 + int 61 * msPerDay) = 1715270400000"
    by (simp add: UTC_def us_eastern_2024_def msPerDay_def)
  have a: "day_at (LocalTZA noon_host) (twoMonthsAgo noon_host) i \<le> now noon_host 0"
    if "i < 62" for i
  proof (cases "i = 61")
    case True
    then show ?thesis by (simp only: noon_host_day_at last noon_host_now)
  next
    case False
    with that have "int i \<le> 60" by simp
    then have "1709985600000 + int i * msPerDay + 18000000 \<le> 1715270400000"
      by (simp add: msPerDay_def)
    with UTC_us_eastern_2024(2) [of "1709985600000 + int i * msPerDay"]
    show ?thesis by (simp only: noon_host_day_at noon_host_now)
  qed
  have b: "now noon_host 0 < day_at (LocalTZA noon_host) (twoMonthsAgo noon_host) 62"
    using UTC_us_eastern_2024(1) [of "1709985600000 + int 62 * msPerDay"]
    by (simp only: noon_host_day_at noon_host_now) (simp add: msPerDay_def)
  have "days_loop noon_host m (now noon_host 0) (twoMonthsAgo noon_host)
          (initialEnergy noon_host m) 1 2 [] =
        Some ([] @ map (record_at noon_host m (twoMonthsAgo noon_host)
                          (initialEnergy noon_host m) 1 2) [0..<62])"
    using a b by (intro days_loop_unroll) simp_all
  then show ?thesis by (simp add: generateData_def)
qed

subsection \<open>Claims about dates and times\<close>

text \<open>
  C10, as amended. When every local time the run asks its zone for exists (none is
  skipped by a change of the clocks), every record of the run carries the same time
  string: the local time of the second reading of the clock (the \<open>new Date()\<close> of line
  64), written with an hour from 1 to 12 (12 for the hours 0 and 12), a colon, the
  minutes on two digits, a colon, the seconds on two digits, a space, and \<open>AM\<close> before
  noon or \<open>PM\<close> from noon on. Every local time exists in a zone with a constant offset
  (\<open>exists_locally_fixed\<close>); in New York all do but the hour from 02:00 to 03:00 on the
  day of the change to summer time (\<open>exists_locally_us_eastern_2024\<close>).
\<close>

theorem same_time_on_every_record:
  assumes "generateData h energyType = Some recs"
    and "\<forall>i<length recs. exists_locally (LocalTZA h) (asked_local h i)"
    and "r \<in> set recs"
  shows "time r = formatTime (LocalTZA h) (now h 1) \<and>
         (\<exists>hh. 1 \<le> hh \<and> hh \<le> 12 \<and> hh mod 12 = getHours (LocalTZA h) (now h 1) mod 12 \<and>
            length (padStart 2 (CHR ''0'') (toString (getMinutes (LocalTZA h) (now h 1)))) = 2 \<and>
            length (padStart 2 (CHR ''0'') (toString (getSeconds (LocalTZA h) (now h 1)))) = 2 \<and>
            time r =
              toString hh @ '':'' @
              padStart 2 (CHR ''0'') (toString (getMinutes (LocalTZA h) (now h 1))) @ '':'' @
              padStart 2 (CHR ''0'') (toString (getSeconds (LocalTZA h) (now h 1))) @ '' '' @
              (if getHours (LocalTZA h) (now h 1) < 12 then ''AM'' else ''PM''))"
proof -
  from assms(1) obtain n where
    recs: "recs = map (record_at h energyType (twoMonthsAgo h) (initialEnergy h energyType) 1 2) [0..<n]"
    by (rule generateData_records)
  with assms(3) obtain i where i: "i < n"
    and r: "r = record_at h energyType (twoMonthsAgo h) (initialEnergy h energyType) 1 2 i"
    by auto
  have "\<forall>j\<le>i. exists_locally (LocalTZA h) (asked_local h j)"
    using assms(2) i by (simp add: recs)
  then have t: "time r = formatTime (LocalTZA h) (now h 1)"
    unfolding r by (rule time_record_at_asked)
  show ?thesis
    unfolding t using formatTime_shape [of "LocalTZA h" "now h 1"] by simp
qed


theorem same_time_on_every_record_witness:
  "generateData noon_host (Num 1) \<noteq> None \<and>
   length (the (generateData noon_host (Num 1))) = 62 \<and>
   (\<forall>i. exists_locally (LocalTZA noon_host) (asked_local noon_host i)) \<and>
   the (generateData noon_host (Num 1)) ! 0 \<in> set (the (generateData noon_host (Num 1))) \<and>
   the (generateData noon_host (Num 1)) ! 1 \<in> set (the (generateData noon_host (Num 1))) \<and>
   the (generateData noon_host (Num 1)) ! 61 \<in> set (the (generateData noon_host (Num 1))) \<and>
   date (the (generateData noon_host (Num 1)) ! 0) = ''2024-03-09'' \<and>
   date (the (generateData noon_host (Num 1)) ! 1) = ''2024-03-10'' \<and>
   date (the (generateData noon_host (Num 1)) ! 61) = ''2024-05-09'' \<and>
   time (the (generateData noon_host (Num 1)) ! 0) = ''12:00:00 PM'' \<and>
   time (the (generateData noon_host (Num 1)) ! 1) = ''12:00:00 PM'' \<and>
   time (the (generateData noon_host (Num 1)) ! 61) = ''12:00:00 PM''"
proof -
  define recs where "recs = map (record_at noon_host (Num 1) (twoMonthsAgo noon_host)
      (initialEnergy noon_host (Num 1)) 1 2) [0..<62]"
  have run: "generateData noon_host (Num 1) = Some recs"
    unfolding recs_def by (rule noon_host_run)
  have len: "length recs = 62" by (simp add: recs_def)
  have ex: "\<forall>i<length recs. exists_locally (LocalTZA noon_host) (asked_local noon_host i)"
    using noon_host_exists by simp
  have mem: "recs ! 0 \<in> set recs" "recs ! 1 \<in> set recs" "recs ! 61 \<in> set recs"
    by (simp_all add: len)
  have f: "formatTime (LocalTZA noon_host) (now noon_host 1) = ''12:00:00 PM''"
    by code_simp
  have "time (recs ! 0) = formatTime (LocalTZA noon_host) (now noon_host 1)"
    using same_time_on_every_record [OF run ex mem(1)] by (rule conjunct1)
  moreover have "time (recs ! 1) = formatTime (LocalTZA noon_host) (now noon_host 1)"
    using same_time_on_every_record [OF run ex mem(2)] by (rule conjunct1)
  moreover have "time (recs ! 61) = formatTime (LocalTZA noon_host) (now noon_host 1)"
    using same_time_on_every_record [OF run ex mem(3)] by (rule conjunct1)
  ultimately have t: "time (recs ! 0) = ''12:00:00 PM''" "time (recs ! 1) = ''12:00:00 PM''"
    "time (recs ! 61) = ''12:00:00 PM''"
    by (simp_all only: f)
  have d0: "toISODate (UTC us_eastern_2024 (1709985600000 + int 0 * msPerDay)) = ''2024-03-09''"
    by code_simp
  have d1: "toISODate (UTC us_eastern_2024 (1709985600000 + int 1 * msPerDay)) = ''2024-03-10''"
    by code_simp
  have d61: "toISODate (UTC us_eastern_2024 (1709985600000 + int 61 * msPerDay)) = ''2024-05-09''"
    by code_simp
  have i: "(0::nat) < 62" "(1::nat) < 62" "(61::nat) < 62" by simp_all
  have d: "date (recs ! 0) = ''2024-03-09''" "date (recs ! 1) = ''2024-03-10''"
    "date (recs ! 61) = ''2024-05-09''"
    unfolding recs_def
    by (simp_all only: nth_map_upt0 [OF i(1)] nth_map_upt0 [OF i(2)] nth_map_upt0 [OF i(3)]
        date_record_at noon_host_day_at d0 d1 d61)
  from noon_host_exists have "\<forall>i. exists_locally (LocalTZA noon_host) (asked_local noon_host i)"
    by blast
  with t d mem len show ?thesis by (simp only: run option.sel) simp
qed

text \<open>
  C10 as stated fails where a local time the run asks for does not exist. The run on
  \<open>dst_host\<close> starts its loop on 2024-03-09 at 02:30 local time; \<open>setDate\<close> then asks for
  02:30 on 2024-03-10, a local time that the change to summer time skips, and gets
  03:30. The first two records carry different time strings.
\<close>

theorem time_changes_at_transition:
  "generateData dst_host (Num 1) \<noteq> None \<and>
   time (the (generateData dst_host (Num 1)) ! 0) = ''2:30:00 AM'' \<and>
   time (the (generateData dst_host (Num 1)) ! 1) = ''3:30:00 AM''"
proof -
  have a: "next_day (LocalTZA dst_host) (twoMonthsAgo dst_host) \<le> now dst_host 0"
    by code_simp
  have b: "formatTime (LocalTZA dst_host) (twoMonthsAgo dst_host) = ''2:30:00 AM''"
    by code_simp
  have c: "formatTime (LocalTZA dst_host) (next_day (LocalTZA dst_host) (twoMonthsAgo dst_host))
      = ''3:30:00 AM''"
    by code_simp
  from generateData_two [OF dst_host_steady a, of "Num 1"] show ?thesis
    by (auto simp: b c)
qed


text \<open>
  C2 at an input where the code misses it: the clock advances by one millisecond between
  the two readings. The loop compares \<open>d\<close>, which carries the time of day of the second
  reading, with \<open>today\<close>, the first reading; on the last day \<open>d\<close> is one millisecond
  later than \<open>today\<close> and the loop ends without a record for today, 2024-05-09.
\<close>

theorem clock_tick_drops_today:
  "generateData tick_host (Num 1) \<noteq> None \<and>
   length (the (generateData tick_host (Num 1))) = 61 \<and>
   date (hd (the (generateData tick_host (Num 1)))) = ''2024-03-09'' \<and>
   date (last (the (generateData tick_host (Num 1)))) = ''2024-05-08'' \<and>
   toISODate (now tick_host 0) = ''2024-05-09''"
proof -
  have z: "LocalTZA tick_host = fixed_zone 19800000" by (simp add: tick_host_def example_host_def)
  have l: "toISODate (twoMonthsAgo tick_host + int 60 * msPerDay) = ''2024-05-08''"
    by code_simp
  have f: "toISODate (twoMonthsAgo tick_host) = ''2024-03-09''"
    by code_simp
  have t: "toISODate (now tick_host 0) = ''2024-05-09''"
    by code_simp
  have "date (last (the (generateData tick_host (Num 1)))) = ''2024-05-08''"
    by (simp only: tick_host_run option.sel last_map_upt date_record_at z day_at_fixed l)
  moreover have "date (hd (the (generateData tick_host (Num 1)))) = ''2024-03-09''"
    by (simp only: tick_host_run option.sel map_record_at_Suc list.sel date_prepare f)
  ultimately show ?thesis using t by (simp add: tick_host_run)
qed

subsection \<open>Modes other than 1\<close>

lemma increase_other:
  assumes "m \<noteq> Num 1" and "m' \<noteq> Num 1"
  shows "increase m = increase m'"
  using assms by (intro ext) (simp add: increase_def)

lemma record_at_other:
  assumes "m \<noteq> Num 1" and "m' \<noteq> Num 1"
  shows "record_at h m d e k c = record_at h m' d e k c"
  unfolding record_at_def energy_at_def increase_other [OF assms] ..

lemma initialEnergy_other:
  assumes "m \<noteq> Num 1" and "m' \<noteq> Num 1"
  shows "initialEnergy h m = initialEnergy h m'"
  using assms by (simp add: initialEnergy_def)

lemma days_loop_other_Some:
  assumes "m \<noteq> Num 1" and "m' \<noteq> Num 1"
    and "days_loop h m today d e k c acc = Some recs"
  shows "days_loop h m' today d e k c acc = Some recs"
proof -
  from days_loop_Some [OF assms(3)] obtain n where
    n: "\<forall>i<n. day_at (LocalTZA h) d i \<le> today" "today < day_at (LocalTZA h) d n"
       "recs = acc @ map (record_at h m d e k c) [0..<n]"
    unfolding unrolled_def by blast
  have "days_loop h m' today d e k c acc = Some (acc @ map (record_at h m' d e k c) [0..<n])"
    using n(1,2) by (rule days_loop_unroll)
  also have "record_at h m' d e k c = record_at h m d e k c"
    using assms(2,1) by (rule record_at_other)
  finally show ?thesis unfolding n(3) .
qed

lemma days_loop_other:
  assumes "m \<noteq> Num 1" and "m' \<noteq> Num 1"
  shows "days_loop h m today d e k c acc = days_loop h m' today d e k c acc"
proof (cases "days_loop h m today d e k c acc")
  case (Some recs)
  from days_loop_other_Some [OF assms Some] Some show ?thesis by (rule ssubst)
next
  case None
  show ?thesis
  proof (cases "days_loop h m' today d e k c acc")
    case (Some recs)
    from days_loop_other_Some [OF assms(2,1) Some] None show ?thesis
      by (simp only: option.distinct)
  next
    case None': None
    show ?thesis unfolding None None' ..
  qed
qed

lemma generateData_other:
  assumes "m \<noteq> Num 1" and "m' \<noteq> Num 1"
  shows "generateData h m = generateData h m'"
  unfolding generateData_def initialEnergy_other [OF assms]
  by (rule days_loop_other [OF assms])


subsection \<open>The database calls of a run\<close>

lemma run_unfold:
  assumes "generateData h m = Some dataToInsert"
  shows "runDataGeneration h m action w =
     (let tried = try_block h action dataToInsert w;
          w1 = (case fst tried of None \<Rightarrow> snd tried | Some c \<Rightarrow> say (ErrorLine c) (snd tried));
          w2 = attempt Disconnect w1
      in if rejects h Disconnect then Some (Rejected Disconnect, w2)
         else Some (Resolved, say Disconnected (w2\<lparr>connected := False\<rparr>)))"
  by (simp add: runDataGeneration_def generateDataForTwoMonths_def assms)

lemma healthy_example: "rejects example_host c = False"
  by (simp add: example_host_def)

lemma example_host_zone: "LocalTZA example_host = fixed_zone 19800000"
  by (simp add: example_host_def)

lemma try_block_thrown:
  "fst (try_block h action dataToInsert w) = thrown h action (documents w \<noteq> [])"
  by (simp add: try_block_def thrown_def Let_def attempt_def say_def)

lemma try_block_calls:
  "calls (snd (try_block h action dataToInsert w)) =
     calls w @ attempted h action (documents w \<noteq> [])"
  by (simp add: try_block_def attempted_def Let_def attempt_def say_def insertMany_def
      deleteMany_def)

lemma try_block_console:
  "\<exists>lines. console (snd (try_block h action dataToInsert w)) = console w @ lines"
  by (simp add: try_block_def Let_def attempt_def say_def insertMany_def deleteMany_def)

lemma attempted_distinct: "distinct (attempted h action nonempty @ [Disconnect])"
  by (simp add: attempted_def)

lemma attempted_thrown:
  "c \<in> set (attempted h action nonempty) \<Longrightarrow> rejects h c \<Longrightarrow> thrown h action nonempty = Some c"
  by (auto simp: attempted_def thrown_def split: if_splits)

lemma failures_are_logged_aux:
  assumes "steady (LocalTZA h)"
  shows "\<exists>out w'. runDataGeneration h energyType action w = Some (out, w') \<and>
           calls w' = calls w @ attempted h action (documents w \<noteq> []) @ [Disconnect]"
proof -
  from generateData_total [OF assms(1)] obtain dataToInsert where
    gen: "generateData h energyType = Some dataToInsert" by blast
  define tried where "tried = try_block h action dataToInsert w"
  define w1 where
    "w1 = (case fst tried of None \<Rightarrow> snd tried | Some c \<Rightarrow> say (ErrorLine c) (snd tried))"
  define w2 where "w2 = attempt Disconnect w1"
  define out where "out = (if rejects h Disconnect then Rejected Disconnect else Resolved)"
  define w' where
    "w' = (if rejects h Disconnect then w2 else say Disconnected (w2\<lparr>connected := False\<rparr>))"
  have run: "runDataGeneration h energyType action w = Some (out, w')"
    unfolding run_unfold [OF gen] Let_def out_def w'_def w2_def w1_def tried_def by simp
  have c1: "calls w1 = calls w @ attempted h action (documents w \<noteq> [])"
    using try_block_calls [of h action dataToInsert w]
    by (simp add: w1_def tried_def say_def split: option.split)
  have "calls w' = calls w @ attempted h action (documents w \<noteq> []) @ [Disconnect]"
    by (simp add: w'_def w2_def attempt_def say_def c1)
  with run show ?thesis by blast
qed

lemma insert_fails_host_run:
  "\<exists>dataToInsert. generateData insert_fails_host m = Some dataToInsert \<and> length dataToInsert = 62"
proof -
  have z: "LocalTZA insert_fails_host = fixed_zone 19800000"
    by (simp add: insert_fails_host_def example_host_def)
  have "days_covered insert_fails_host = 62" by code_simp
  with generateData_fixed [OF z, of m] show ?thesis by simp
qed

lemma disconnect_fails_host_run:
  "\<exists>dataToInsert. generateData disconnect_fails_host m = Some dataToInsert \<and> length dataToInsert = 62"
proof -
  have z: "LocalTZA disconnect_fails_host = fixed_zone 19800000"
    by (simp add: disconnect_fails_host_def example_host_def)
  have "days_covered disconnect_fails_host = 62" by code_simp
  with generateData_fixed [OF z, of m] show ?thesis by simp
qed

lemma insert_fails_host_steady: "steady (LocalTZA insert_fails_host)"
  by (simp add: insert_fails_host_def example_host_def steady_fixed_zone)

subsection \<open>Claims about the prompts and the database\<close>

text \<open>
  C1, as amended. In a steady time zone (its offsets differ by less than a day, so that
  the loop that generates the records ends) a mode other than 1 (2, 3, any other
  integer, or \<open>NaN\<close>) is not rejected: the records are generated exactly as for mode 2,
  the run as a whole is the run of mode 2, and the script goes on to the database,
  whose first call is the connect. No input error is reported.
\<close>

theorem other_modes_run_as_greater:
  assumes "energyType \<noteq> Num 1" and "steady (LocalTZA h)"
  shows "generateData h energyType = generateData h (Num 2) \<and>
         runDataGeneration h energyType action w = runDataGeneration h (Num 2) action w \<and>
         (\<exists>out w'. runDataGeneration h energyType action w = Some (out, w') \<and>
            length (calls w) < length (calls w') \<and>
            calls w' ! length (calls w) = Connect)"
proof -
  have g: "generateData h energyType = generateData h (Num 2)"
    using assms(1) by (rule generateData_other) simp
  then have r: "runDataGeneration h energyType action w = runDataGeneration h (Num 2) action w"
    by (simp add: runDataGeneration_def generateDataForTwoMonths_def)
  from failures_are_logged_aux [OF assms(2), of energyType action w]
  obtain out w' where "runDataGeneration h energyType action w = Some (out, w')"
    and "calls w' = calls w @ attempted h action (documents w \<noteq> []) @ [Disconnect]"
    by blast
  moreover from this(2) have "length (calls w) < length (calls w')"
    "calls w' ! length (calls w) = Connect"
    by (simp_all add: attempted_def nth_append)
  ultimately show ?thesis using g r by blast
qed


theorem other_modes_run_as_greater_witness:
  "Num 3 \<noteq> Num 1 \<and> steady (LocalTZA example_host) \<and>
   generateData example_host (Num 3) = generateData example_host (Num 2) \<and>
   runDataGeneration example_host (Num 3) (Num 1) empty_world =
     runDataGeneration example_host (Num 2) (Num 1) empty_world \<and>
   (\<exists>out w'. runDataGeneration example_host (Num 3) (Num 1) empty_world = Some (out, w') \<and>
      calls w' ! 0 = Connect)"
proof -
  have ne: "Num 3 \<noteq> Num 1" by simp
  from other_modes_run_as_greater [OF ne example_host_steady, of "Num 1" empty_world]
  obtain out w' where
    g: "generateData example_host (Num 3) = generateData example_host (Num 2)" and
    r: "runDataGeneration example_host (Num 3) (Num 1) empty_world =
          runDataGeneration example_host (Num 2) (Num 1) empty_world" and
    run: "runDataGeneration example_host (Num 3) (Num 1) empty_world = Some (out, w')" and
    c: "calls w' ! length (calls empty_world) = Connect"
    by blast
  from c have "calls w' ! 0 = Connect" by (simp add: empty_world_def)
  with run have "\<exists>out w'. runDataGeneration example_host (Num 3) (Num 1) empty_world = Some (out, w') \<and>
      calls w' ! 0 = Connect" by blast
  with ne example_host_steady g r show ?thesis by blast
qed

text \<open>
  C1 as stated fails at mode 3: with the action 1 and a healthy database the run
  resolves, all four database calls are made, the 62 records are inserted with the
  starting energy of the greater mode, and the console shows no error.
\<close>

theorem invalid_mode_inserts_records:
  "runDataGeneration example_host (Num 3) (Num 1) empty_world \<noteq> None \<and>
   fst (the (runDataGeneration example_host (Num 3) (Num 1) empty_world)) = Resolved \<and>
   calls (snd (the (runDataGeneration example_host (Num 3) (Num 1) empty_world))) =
     [Connect, ListCollections, InsertMany, Disconnect] \<and>
   console (snd (the (runDataGeneration example_host (Num 3) (Num 1) empty_world))) =
     [Connecting, Connected, CollectionMissing, Inserting 62, Inserted 62, Disconnected] \<and>
   length (documents (snd (the (runDataGeneration example_host (Num 3) (Num 1) empty_world)))) = 62 \<and>
   energy (hd (the (generateData example_host (Num 3)))) = 150"
proof -
  obtain dataToInsert where gen: "generateData example_host (Num 3) = Some dataToInsert"
    and len: "length dataToInsert = 62"
    using example_host_run [of "Num 3"] by simp
  obtain rest where "dataToInsert = hd dataToInsert # rest"
    using example_host_first [of "Num 3"] by (auto simp: gen)
  with gen have "generateData example_host (Num 3) = Some (hd dataToInsert # rest)" by simp
  then have "energy (hd dataToInsert) = initialEnergy example_host (Num 3)"
    by (rule generateData_head_energy)
  also have "\<dots> = 150" by code_simp
  finally have e: "energy (hd (the (generateData example_host (Num 3)))) = 150"
    by (simp add: gen)
  show ?thesis
    unfolding run_unfold [OF gen]
    using e
    by (simp add: try_block_def Let_def attempt_def say_def insertMany_def healthy_example len
        empty_world_def)
qed

text \<open>
  What \<open>parseInt\<close> makes of some lines. It reads the longest prefix that is an integer
  and ignores the rest: \<open>1e3\<close>, \<open>2.5\<close> and \<open>2abc\<close> are read as 1, 2 and 2.
\<close>

lemma parseInt_examples:
  "parseInt ''1'' = Num 1"
  "parseInt ''2'' = Num 2"
  "parseInt ''3'' = Num 3"
  "parseInt ''1e3'' = Num 1"
  "parseInt ''2.5'' = Num 2"
  "parseInt ''2abc'' = Num 2"
  "parseInt '' +01'' = Num 1"
  "parseInt ''0x2'' = Num 2"
  "parseInt ''-1'' = Num (- 1)"
  "parseInt ''12'' = Num 12"
  "parseInt ''insert'' = NaN"
  "parseInt ''0x'' = NaN"
  "parseInt [] = NaN"
  by code_simp+

text \<open>
  C7, as amended. In a steady time zone, when the connection is made, the collections
  are listed and the disconnect succeeds, every line typed at the action prompt that
  \<open>parseInt\<close> reads neither as 1 nor as 2 (a line it reads as no number included) makes
  the script write the line \<open>Invalid action\<close> to the console; neither \<open>insertMany\<close> nor
  \<open>find\<close> nor \<open>deleteMany\<close> is called, the collection is left as it was, and the promise
  of the run resolves. This holds whatever is typed at the mode prompt.
\<close>

theorem invalid_answer_is_reported:
  assumes "steady (LocalTZA h)"
    and "\<not> rejects h Connect" and "\<not> rejects h ListCollections" and "\<not> rejects h Disconnect"
    and "askUserAction actionAnswer \<noteq> Num 1" and "askUserAction actionAnswer \<noteq> Num 2"
  shows "\<exists>w'. script h modeAnswer actionAnswer w = Some (Resolved, w') \<and>
           calls w' = calls w @ [Connect, ListCollections, Disconnect] \<and>
           console w' = console w @ [Connecting, Connected] @
             (if collection_exists w then [] else [CollectionMissing]) @
             [InvalidAction, Disconnected] \<and>
           documents w' = documents w \<and>
           collection_exists w' = collection_exists w \<and>
           \<not> connected w'"
proof -
  define energyType where "energyType = askEnergyType modeAnswer"
  define action where "action = askUserAction actionAnswer"
  from generateData_total [OF assms(1)] obtain dataToInsert where
    "generateData h energyType = Some dataToInsert" by blast
  from run_unfold [OF this, of action w] assms(2-4) assms(5,6) [folded action_def]
  have "\<exists>w'. runDataGeneration h energyType action w = Some (Resolved, w') \<and>
           calls w' = calls w @ [Connect, ListCollections, Disconnect] \<and>
           console w' = console w @ [Connecting, Connected] @
             (if collection_exists w then [] else [CollectionMissing]) @
             [InvalidAction, Disconnected] \<and>
           documents w' = documents w \<and>
           collection_exists w' = collection_exists w \<and>
           \<not> connected w'"
    by (simp add: try_block_def Let_def attempt_def say_def)
  then show ?thesis unfolding script_def energyType_def action_def .
qed

theorem invalid_answer_is_reported_witness:
  "steady (LocalTZA example_host) \<and>
   \<not> rejects example_host Connect \<and> \<not> rejects example_host ListCollections \<and>
   \<not> rejects example_host Disconnect \<and>
   askUserAction ''3'' = Num 3 \<and> askUserAction ''3'' \<noteq> Num 1 \<and> askUserAction ''3'' \<noteq> Num 2 \<and>
   (\<exists>w'. script example_host ''1'' ''3'' empty_world = Some (Resolved, w') \<and>
      calls w' = [Connect, ListCollections, Disconnect] \<and>
      console w' = [Connecting, Connected, CollectionMissing, InvalidAction, Disconnected] \<and>
      documents w' = []) \<and>
   askUserAction ''insert'' = NaN \<and>
   (\<exists>w'. script example_host ''1'' ''insert'' empty_world = Some (Resolved, w') \<and>
      calls w' = [Connect, ListCollections, Disconnect] \<and>
      console w' = [Connecting, Connected, CollectionMissing, InvalidAction, Disconnected] \<and>
      documents w' = [])"
proof -
  have a: "askUserAction ''3'' = Num 3" "askUserAction ''insert'' = NaN"
    by (simp_all only: askUserAction_def parseInt_examples)
  have h: "\<not> rejects example_host Connect" "\<not> rejects example_host ListCollections"
    "\<not> rejects example_host Disconnect"
    by (simp_all add: healthy_example)
  have e: "calls empty_world = []" "console empty_world = []" "documents empty_world = []"
    "\<not> collection_exists empty_world"
    by (simp_all add: empty_world_def)
  have "askUserAction ''3'' \<noteq> Num 1" "askUserAction ''3'' \<noteq> Num 2" by (simp_all add: a)
  from invalid_answer_is_reported [OF example_host_steady h this, of "''1''" empty_world]
  have 1: "\<exists>w'. script example_host ''1'' ''3'' empty_world = Some (Resolved, w') \<and>
      calls w' = [Connect, ListCollections, Disconnect] \<and>
      console w' = [Connecting, Connected, CollectionMissing, InvalidAction, Disconnected] \<and>
      documents w' = []"
    by (simp add: e) blast
  have "askUserAction ''insert'' \<noteq> Num 1" "askUserAction ''insert'' \<noteq> Num 2"
    by (simp_all add: a)
  from invalid_answer_is_reported [OF example_host_steady h this, of "''1''" empty_world]
  have 2: "\<exists>w'. script example_host ''1'' ''insert'' empty_world = Some (Resolved, w') \<and>
      calls w' = [Connect, ListCollections, Disconnect] \<and>
      console w' = [Connecting, Connected, CollectionMissing, InvalidAction, Disconnected] \<and>
      documents w' = []"
    by (simp add: e) blast
  from a h 1 2 example_host_steady show ?thesis by simp
qed

text \<open>
  C7 as stated fails at the answer \<open>1e3\<close>, which is not one of the two actions:
  \<open>parseInt\<close> reads it as 1, and with a healthy database the script inserts the 62
  records, without a word about the answer. Likewise it reads \<open>2.5\<close> and \<open>2abc\<close> as 2
  and deletes (\<open>parseInt_examples\<close>).
\<close>

theorem answer_1e3_inserts_records:
  "askUserAction ''1e3'' = Num 1 \<and>
   script example_host ''1'' ''1e3'' empty_world \<noteq> None \<and>
   fst (the (script example_host ''1'' ''1e3'' empty_world)) = Resolved \<and>
   calls (snd (the (script example_host ''1'' ''1e3'' empty_world))) =
     [Connect, ListCollections, InsertMany, Disconnect] \<and>
   console (snd (the (script example_host ''1'' ''1e3'' empty_world))) =
     [Connecting, Connected, CollectionMissing, Inserting 62, Inserted 62, Disconnected] \<and>
   length (documents (snd (the (script example_host ''1'' ''1e3'' empty_world)))) = 62"
proof -
  have a: "askUserAction ''1e3'' = Num 1" "askEnergyType ''1'' = Num 1"
    by (simp_all only: askUserAction_def askEnergyType_def parseInt_examples)
  obtain dataToInsert where gen: "generateData example_host (Num 1) = Some dataToInsert"
    and len: "length dataToInsert = 62"
    using example_host_run [of "Num 1"] by simp
  show ?thesis
    unfolding script_def a run_unfold [OF gen]
    by (simp add: try_block_def Let_def attempt_def say_def insertMany_def healthy_example len
        empty_world_def)
qed

text \<open>
  C8. When the action is 2 (delete), the collection holds no document and the database
  calls made succeed, nothing is deleted: \<open>deleteMany\<close> is not even called, the console
  shows \<open>No records found to delete\<close> and no error, the collection stays empty and the
  promise of the run resolves.
\<close>

theorem delete_with_no_records:
  assumes "steady (LocalTZA h)"
    and "\<not> rejects h Connect" and "\<not> rejects h ListCollections" and "\<not> rejects h Find"
    and "\<not> rejects h Disconnect"
    and "documents w = []"
  shows "\<exists>w'. runDataGeneration h energyType (Num 2) w = Some (Resolved, w') \<and>
           calls w' = calls w @ [Connect, ListCollections, Find, Disconnect] \<and>
           console w' = console w @ [Connecting, Connected] @
             (if collection_exists w then [] else [CollectionMissing]) @
             [NoRecordsFound, Disconnected] \<and>
           documents w' = [] \<and>
           collection_exists w' = collection_exists w \<and>
           \<not> connected w'"
proof -
  from generateData_total [OF assms(1)] obtain dataToInsert where
    "generateData h energyType = Some dataToInsert" by blast
  from run_unfold [OF this] assms(2-6) show ?thesis
    by (simp add: try_block_def Let_def attempt_def say_def)
qed

theorem delete_with_no_records_witness:
  "steady (LocalTZA example_host) \<and>
   \<not> rejects example_host Connect \<and> \<not> rejects example_host ListCollections \<and>
   \<not> rejects example_host Find \<and> \<not> rejects example_host Disconnect \<and>
   documents empty_world = [] \<and>
   (\<exists>w'. runDataGeneration example_host (Num 1) (Num 2) empty_world = Some (Resolved, w') \<and>
      calls w' = [Connect, ListCollections, Find, Disconnect] \<and>
      console w' = [Connecting, Connected, CollectionMissing, NoRecordsFound, Disconnected] \<and>
      documents w' = [])"
  using delete_with_no_records [of example_host empty_world "Num 1"] example_host_steady
  by (simp add: healthy_example) (auto simp: empty_world_def)

text \<open>
  C9, as amended. In every run in a steady time zone (its offsets differ by less than a
  day, so that the loop that generates the records ends) no database call is started
  twice, \<open>insertMany\<close> is started once when the action is 1 and \<open>deleteMany\<close> once when
  the action is 2 and there are documents (provided the calls before them succeed), the
  last call is the disconnect, and every call of the \<open>try\<close> block that rejects has its
  error written to the console.
  The promise of the run resolves, with the connection closed, unless the disconnect
  itself rejects: that rejection is outside the \<open>catch\<close> and ends the run.
\<close>

theorem failures_are_logged:
  assumes "steady (LocalTZA h)"
  shows "\<exists>out w'. runDataGeneration h energyType action w = Some (out, w') \<and>
           take (length (calls w)) (calls w') = calls w \<and>
           distinct (drop (length (calls w)) (calls w')) \<and>
           (action = Num 1 \<and> \<not> rejects h Connect \<and> \<not> rejects h ListCollections \<longrightarrow>
              InsertMany \<in> set (drop (length (calls w)) (calls w'))) \<and>
           (action = Num 2 \<and> \<not> rejects h Connect \<and> \<not> rejects h ListCollections \<and>
            \<not> rejects h Find \<and> documents w \<noteq> [] \<longrightarrow>
              DeleteMany \<in> set (drop (length (calls w)) (calls w'))) \<and>
           last (calls w') = Disconnect \<and>
           (\<forall>c \<in> set (drop (length (calls w)) (calls w')).
              c \<noteq> Disconnect \<longrightarrow> rejects h c \<longrightarrow>
              ErrorLine c \<in> set (drop (length (console w)) (console w'))) \<and>
           out = (if rejects h Disconnect then Rejected Disconnect else Resolved) \<and>
           (\<not> rejects h Disconnect \<longrightarrow> \<not> connected w')"
proof -
  from generateData_total [OF assms(1)] obtain dataToInsert where
    gen: "generateData h energyType = Some dataToInsert" by blast
  define tried where "tried = try_block h action dataToInsert w"
  define w1 where
    "w1 = (case fst tried of None \<Rightarrow> snd tried | Some c \<Rightarrow> say (ErrorLine c) (snd tried))"
  define w2 where "w2 = attempt Disconnect w1"
  define out where "out = (if rejects h Disconnect then Rejected Disconnect else Resolved)"
  define w' where
    "w' = (if rejects h Disconnect then w2 else say Disconnected (w2\<lparr>connected := False\<rparr>))"
  let ?att = "attempted h action (documents w \<noteq> [])"
  have run: "runDataGeneration h energyType action w = Some (out, w')"
    unfolding run_unfold [OF gen] Let_def out_def w'_def w2_def w1_def tried_def by simp
  have c1: "calls w1 = calls w @ ?att"
    using try_block_calls [of h action dataToInsert w]
    by (simp add: w1_def tried_def say_def split: option.split)
  have c': "calls w' = calls w @ ?att @ [Disconnect]"
    by (simp add: w'_def w2_def attempt_def say_def c1)
  obtain lines where lines: "console (snd tried) = console w @ lines"
    unfolding tried_def using try_block_console by blast
  have k1: "console w1 =
      console w @ lines @ (case fst tried of None \<Rightarrow> [] | Some c \<Rightarrow> [ErrorLine c])"
    by (simp add: w1_def say_def lines split: option.split)
  have k': "console w' = console w @ lines @
      (case fst tried of None \<Rightarrow> [] | Some c \<Rightarrow> [ErrorLine c]) @
      (if rejects h Disconnect then [] else [Disconnected])"
    by (simp add: w'_def w2_def attempt_def say_def k1)
  have logged: "ErrorLine c \<in> set (drop (length (console w)) (console w'))"
    if "c \<in> set (drop (length (calls w)) (calls w'))" "c \<noteq> Disconnect" "rejects h c" for c
  proof -
    from that(1,2) have "c \<in> set ?att" by (simp add: c')
    from attempted_thrown [OF this that(3)] have "fst tried = Some c"
      by (simp add: tried_def try_block_thrown)
    then show ?thesis by (simp add: k')
  qed
  have "take (length (calls w)) (calls w') = calls w" by (simp add: c')
  moreover have "distinct (drop (length (calls w)) (calls w'))"
    using attempted_distinct [of h action "documents w \<noteq> []"] by (simp add: c')
  moreover have "action = Num 1 \<and> \<not> rejects h Connect \<and> \<not> rejects h ListCollections \<longrightarrow>
      InsertMany \<in> set (drop (length (calls w)) (calls w'))"
    by (simp add: c' attempted_def)
  moreover have "action = Num 2 \<and> \<not> rejects h Connect \<and> \<not> rejects h ListCollections \<and>
      \<not> rejects h Find \<and> documents w \<noteq> [] \<longrightarrow>
      DeleteMany \<in> set (drop (length (calls w)) (calls w'))"
    by (simp add: c' attempted_def)
  moreover have "last (calls w') = Disconnect" by (simp add: c')
  moreover have "\<not> rejects h Disconnect \<longrightarrow> \<not> connected w'"
    by (simp add: w'_def say_def)
  ultimately show ?thesis using run logged out_def by blast
qed


theorem failures_are_logged_witness:
  "steady (LocalTZA insert_fails_host) \<and>
   (\<exists>out w'. runDataGeneration insert_fails_host (Num 1) (Num 1) empty_world = Some (out, w') \<and>
      out = Resolved \<and>
      calls w' = [Connect, ListCollections, InsertMany, Disconnect] \<and>
      last (calls w') = Disconnect \<and>
      rejects insert_fails_host InsertMany \<and>
      ErrorLine InsertMany \<in> set (console w') \<and>
      console w' = [Connecting, Connected, CollectionMissing, Inserting 62,
                    ErrorLine InsertMany, Disconnected] \<and>
      documents w' = [] \<and> \<not> connected w')"
proof -
  from failures_are_logged [OF insert_fails_host_steady, of "Num 1" "Num 1" empty_world]
  obtain out w' where run: "runDataGeneration insert_fails_host (Num 1) (Num 1) empty_world = Some (out, w')"
    and l: "last (calls w') = Disconnect"
    and o: "out = (if rejects insert_fails_host Disconnect then Rejected Disconnect else Resolved)"
    by blast
  obtain dataToInsert where gen: "generateData insert_fails_host (Num 1) = Some dataToInsert"
    and len: "length dataToInsert = 62"
    using insert_fails_host_run by blast
  have r: "rejects insert_fails_host c = (c = InsertMany)" for c
    by (simp add: insert_fails_host_def)
  from run have w': "w' = snd (the (runDataGeneration insert_fails_host (Num 1) (Num 1) empty_world))"
    by simp
  have "calls w' = [Connect, ListCollections, InsertMany, Disconnect]"
    "console w' = [Connecting, Connected, CollectionMissing, Inserting 62,
                    ErrorLine InsertMany, Disconnected]"
    "documents w' = []" "\<not> connected w'"
    unfolding w' run_unfold [OF gen]
    by (simp_all add: try_block_def Let_def attempt_def say_def r len empty_world_def)
  with run l o insert_fails_host_steady show ?thesis by (simp add: r)
qed

text \<open>
  C9 as stated fails when the disconnect rejects: the promise of the run rejects and no
  error line is written.
\<close>

theorem disconnect_failure_is_not_caught:
  "runDataGeneration disconnect_fails_host (Num 1) (Num 1) empty_world \<noteq> None \<and>
   fst (the (runDataGeneration disconnect_fails_host (Num 1) (Num 1) empty_world)) =
     Rejected Disconnect \<and>
   console (snd (the (runDataGeneration disconnect_fails_host (Num 1) (Num 1) empty_world))) =
     [Connecting, Connected, CollectionMissing, Inserting 62, Inserted 62]"
proof -
  obtain dataToInsert where gen: "generateData disconnect_fails_host (Num 1) = Some dataToInsert"
    and len: "length dataToInsert = 62"
    using disconnect_fails_host_run by blast
  have r: "rejects disconnect_fails_host c = (c = Disconnect)" for c
    by (simp add: disconnect_fails_host_def)
  show ?thesis
    unfolding run_unfold [OF gen]
    by (simp add: try_block_def Let_def attempt_def say_def insertMany_def r len empty_world_def)
qed

end
